theory Spec2Isabelle
  imports Main
begin

section \<open>Data model of scrabbl-ai.cpp\<close>

text \<open>
  The program keeps the board as a \<open>vector <vector <Square>>\<close> of 17 by 17 squares: the
  15 by 15 playable squares at rows and columns 1 to 15, inside a ring of squares of type
  \<open>outside\<close>. An empty square holds the letter \<open>.\<close>, a blank tile is a lowercase letter.
\<close>

datatype SquareType =
  triple_word | double_word | triple_letter | double_letter | regular | outside

record Square =
  type :: SquareType
  down_cross_check :: "bool list"
  letter :: char
  row :: int
  col :: int
  min_across_word_length :: int

record Tile =
  tile_letter :: char
  points :: int
  total :: int

datatype TrieNode =
  TrieNode (trie_letter: char) (is_terminal_node: bool)
           (children: "TrieNode list") (letter_indexes: "int list")

type_synonym SquareRow = "Square list"
type_synonym SquareGrid = "SquareRow list"

definition NUM_BOARD_ROWS :: int where
  "NUM_BOARD_ROWS = 15"

definition NUM_BOARD_COLS :: int where
  "NUM_BOARD_COLS = 15"

definition NUM_RACK_TILES :: int where
  "NUM_RACK_TILES = 7"

subsection \<open>Reading and writing a square\<close>

text \<open>
  \<open>board[r][c]\<close> outside the vectors is undefined behaviour in C++. So that every function
  of the model is total, a read outside the vectors gives the sentinel \<open>off_board\<close> (a square
  of type \<open>outside\<close> holding \<open>.\<close>) and a write outside the vectors changes nothing. On a board
  with its ring of \<open>outside\<close> squares (\<open>board_ok\<close> below) the program never leaves the vectors.
\<close>

definition off_board :: Square where
  "off_board = \<lparr>type = outside, down_cross_check = [], letter = CHR ''.'',
                row = 0, col = 0, min_across_word_length = 0\<rparr>"

definition in_grid :: "SquareGrid \<Rightarrow> int \<Rightarrow> int \<Rightarrow> bool" where
  "in_grid board r c \<longleftrightarrow>
     0 \<le> r \<and> r < int (length board) \<and> 0 \<le> c \<and> c < int (length (board ! nat r))"

definition sq_at :: "SquareGrid \<Rightarrow> int \<Rightarrow> int \<Rightarrow> Square" where
  "sq_at board r c = (if in_grid board r c then board ! nat r ! nat c else off_board)"

definition sq_put :: "SquareGrid \<Rightarrow> int \<Rightarrow> int \<Rightarrow> Square \<Rightarrow> SquareGrid" where
  "sq_put board r c s =
     (if in_grid board r c then board[nat r := (board ! nat r)[nat c := s]] else board)"

definition board_ok :: "SquareGrid \<Rightarrow> bool" where
  "board_ok board \<longleftrightarrow>
     length board = 17 \<and> list_all (\<lambda>r. length r = 17) board \<and>
     list_all (\<lambda>r. list_all (\<lambda>c.
        row (sq_at board r c) = r \<and> col (sq_at board r c) = c \<and>
        (type (sq_at board r c) = outside) = (r = 0 \<or> r = 16 \<or> c = 0 \<or> c = 16) \<and>
        (type (sq_at board r c) = outside \<longrightarrow> letter (sq_at board r c) = CHR ''.''))
        [0..16]) [0..16]"

subsection \<open>Characters\<close>

definition isupper :: "char \<Rightarrow> bool" where
  "isupper c \<longleftrightarrow> 65 \<le> (of_char c :: nat) \<and> (of_char c :: nat) \<le> 90"

definition islower :: "char \<Rightarrow> bool" where
  "islower c \<longleftrightarrow> 97 \<le> (of_char c :: nat) \<and> (of_char c :: nat) \<le> 122"

definition toupper :: "char \<Rightarrow> char" where
  "toupper c = (if islower c then char_of ((of_char c :: nat) - 32) else c)"

definition tolower :: "char \<Rightarrow> char" where
  "tolower c = (if isupper c then char_of ((of_char c :: nat) + 32) else c)"

text \<open>\<open>letter - 'A'\<close>, the index of a letter in a rack, a cross-check set or a tile table.\<close>

definition letter_index :: "char \<Rightarrow> int" where
  "letter_index c = int (of_char c) - 65"

section \<open>Loading the board\<close>

text \<open>
  \<open>read_board_data\<close> builds the board from the strings it reads from the layout file, one
  for a row: every square starts empty, the squares of the ring with no legal letter and all
  others with all 26 letters legal.
  The source leaves the minimum length of a square uninitialised, and its type too for a
  character outside the key of the file; the model leaves them unspecified.
\<close>

definition square_of_char :: "int \<Rightarrow> int \<Rightarrow> char \<Rightarrow> Square" where
  "square_of_char row_num i ch =
     \<lparr>type = (if ch = CHR ''W'' then triple_word
              else if ch = CHR ''w'' then double_word
              else if ch = CHR ''L'' then triple_letter
              else if ch = CHR ''l'' then double_letter
              else if ch = CHR ''.'' then regular
              else if ch = CHR ''x'' then outside
              else undefined),
      down_cross_check = (if ch = CHR ''x'' then replicate 26 False else replicate 26 True),
      letter = CHR ''.'', row = row_num, col = i, min_across_word_length = undefined\<rparr>"

definition read_board_data :: "string list \<Rightarrow> SquareGrid" where
  "read_board_data lines =
     map (\<lambda>(row_num, line). map (\<lambda>(i, ch). square_of_char (int row_num) (int i) ch)
                                  (enumerate 0 line))
         (enumerate 0 lines)"

text \<open>\<open>read_test_game_data\<close> and the console's tile command store a letter in a square.\<close>

definition set_letter :: "SquareGrid \<Rightarrow> int \<Rightarrow> int \<Rightarrow> char \<Rightarrow> SquareGrid" where
  "set_letter board r c ch = sq_put board r c ((sq_at board r c)\<lparr>letter := ch\<rparr>)"

section \<open>Minimum across word length\<close>

definition set_min :: "SquareGrid \<Rightarrow> int \<Rightarrow> int \<Rightarrow> int \<Rightarrow> SquareGrid" where
  "set_min board r c v = sq_put board r c ((sq_at board r c)\<lparr>min_across_word_length := v\<rparr>)"

text \<open>
  The body of the inner loop of \<open>update_min_across_word_length\<close>, on the board and the
  running \<open>min_word_length\<close> of the row.
\<close>

fun min_across_cell :: "int \<Rightarrow> int \<Rightarrow> SquareGrid \<times> int \<Rightarrow> SquareGrid \<times> int" where
  "min_across_cell r c (board, min_word_length) =
     (if letter (sq_at board r (c - 1)) \<noteq> CHR ''.'' then
        (set_min board r c (- 1), min_word_length)
      else if letter (sq_at board (r - 1) c) \<noteq> CHR ''.'' \<or>
              letter (sq_at board (r + 1) c) \<noteq> CHR ''.'' \<or>
              letter (sq_at board r (c + 1)) \<noteq> CHR ''.'' \<or>
              letter (sq_at board r c) \<noteq> CHR ''.'' then
        (set_min board r c 1, 1)
      else if min_word_length = - 1 then
        (set_min board r c (- 1), min_word_length)
      else
        (set_min board r c (min_word_length + 1), min_word_length + 1))"

text \<open>One row, from column 15 down to column 1, starting with \<open>min_word_length = -1\<close>.\<close>

definition min_across_row :: "int \<Rightarrow> SquareGrid \<Rightarrow> SquareGrid" where
  "min_across_row r board =
     fst (fold (min_across_cell r) (rev [1..NUM_BOARD_COLS]) (board, - 1))"

definition update_min_across_word_length :: "SquareGrid \<Rightarrow> SquareGrid" where
  "update_min_across_word_length board = fold min_across_row [1..NUM_BOARD_ROWS] board"

section \<open>Dictionary, trie, tiles and rack\<close>

text \<open>
  \<open>global_words\<close> is an unordered map from the words of the dictionary file. The model takes
  its keys as a list, in the order the map iterates them (which the C++ library leaves open):
  \<open>create_word_trie\<close> inserts them in that order, and the order of the children of a trie
  node is the order in which their letters were first inserted.
\<close>

type_synonym Lexicon = "string list"

definition new_node :: "char \<Rightarrow> TrieNode" where
  "new_node ch = TrieNode ch False [] (replicate 26 (- 1))"

fun insert_into_trie :: "TrieNode \<Rightarrow> string \<Rightarrow> TrieNode" where
  "insert_into_trie (TrieNode l t cs li) [] = TrieNode l True cs li"
| "insert_into_trie (TrieNode l t cs li) (ch # word) =
     (let i = nat (letter_index ch);
          cs1 = (if li ! i = - 1 then cs @ [new_node ch] else cs);
          li1 = (if li ! i = - 1 then li[i := int (length cs)] else li);
          child_index = nat (li1 ! i)
      in TrieNode l t (cs1[child_index := insert_into_trie (cs1 ! child_index) word]) li1)"

definition create_word_trie :: "Lexicon \<Rightarrow> TrieNode" where
  "create_word_trie global_words =
     fold (\<lambda>str root. if length str > 2 \<and> list_all isupper str
                        then insert_into_trie root str else root)
          global_words (new_node (CHR ''*''))"

text \<open>\<open>global_tiles[letter - 'A'].points\<close>\<close>

definition tile_points :: "Tile list \<Rightarrow> char \<Rightarrow> int" where
  "tile_points global_tiles ch = points (global_tiles ! nat (letter_index ch))"

text \<open>The points a letter on the board or in a move is worth: none for a blank (lowercase).\<close>

definition upper_points :: "Tile list \<Rightarrow> char \<Rightarrow> int" where
  "upper_points global_tiles ch = (if isupper ch then tile_points global_tiles ch else 0)"

definition fill_rack :: "string \<Rightarrow> int list" where
  "fill_rack letters =
     fold (\<lambda>ch rack.
             if isupper ch then rack[nat (letter_index ch) := rack ! nat (letter_index ch) + 1]
             else if ch = CHR ''*'' then rack[26 := rack ! 26 + 1]
             else rack)
          (take (nat NUM_RACK_TILES) letters) (replicate 27 0)"

section \<open>Cross-checks\<close>

text \<open>The two \<open>while\<close> loops that collect the letters above and below a square.\<close>

function above_fragment :: "SquareGrid \<Rightarrow> int \<Rightarrow> int \<Rightarrow> string \<Rightarrow> string" where
  "above_fragment board check_row c above_square =
     (if letter (sq_at board check_row c) \<noteq> CHR ''.'' \<and>
         type (sq_at board check_row c) \<noteq> outside
      then above_fragment board (check_row - 1) c
             (toupper (letter (sq_at board check_row c)) # above_square)
      else above_square)"
  by pat_completeness auto
termination
  by (relation "measure (\<lambda>(board, check_row, c, a). nat (check_row + 1))")
     (auto simp: sq_at_def in_grid_def off_board_def split: if_splits)

declare above_fragment.simps [simp del]

function below_fragment :: "SquareGrid \<Rightarrow> int \<Rightarrow> int \<Rightarrow> string \<Rightarrow> string" where
  "below_fragment board check_row c below_square =
     (if letter (sq_at board check_row c) \<noteq> CHR ''.'' \<and>
         type (sq_at board check_row c) \<noteq> outside
      then below_fragment board (check_row + 1) c
             (below_square @ [toupper (letter (sq_at board check_row c))])
      else below_square)"
  by pat_completeness auto
termination
  by (relation "measure (\<lambda>(board, check_row, c, a). nat (int (length board) - check_row))")
     (auto simp: sq_at_def in_grid_def off_board_def split: if_splits)

declare below_fragment.simps [simp del]

definition set_cross_check :: "SquareGrid \<Rightarrow> int \<Rightarrow> int \<Rightarrow> bool list \<Rightarrow> SquareGrid" where
  "set_cross_check board r c v = sq_put board r c ((sq_at board r c)\<lparr>down_cross_check := v\<rparr>)"

text \<open>One turn of the loop over the 26 letters, \<open>test_letter\<close> from 65 (\<open>A\<close>) to 90 (\<open>Z\<close>).\<close>

definition test_letter_step ::
  "Lexicon \<Rightarrow> string \<Rightarrow> string \<Rightarrow> int \<Rightarrow> int \<Rightarrow> int \<Rightarrow> SquareGrid \<Rightarrow> SquareGrid" where
  "test_letter_step global_words above_square below_square r c test_letter board =
     (let test_word = above_square @ [char_of (nat test_letter)] @ below_square
      in set_cross_check board r c
           ((down_cross_check (sq_at board r c))
              [nat (test_letter - 65) := (test_word \<in> set global_words)]))"

definition cross_check_cell :: "Lexicon \<Rightarrow> int \<Rightarrow> int \<Rightarrow> SquareGrid \<Rightarrow> SquareGrid" where
  "cross_check_cell global_words r c board =
     (if letter (sq_at board r c) = CHR ''.'' then
        (let above_square = above_fragment board (r - 1) c [];
             below_square = below_fragment board (r + 1) c []
         in if above_square = [] \<and> below_square = [] then board
            else fold (test_letter_step global_words above_square below_square r c)
                      [65..90] board)
      else board)"

definition update_down_cross_checks :: "Lexicon \<Rightarrow> SquareGrid \<Rightarrow> SquareGrid" where
  "update_down_cross_checks global_words board =
     fold (\<lambda>r. fold (cross_check_cell global_words r) [1..NUM_BOARD_COLS])
          [1..NUM_BOARD_ROWS] board"

section \<open>Scoring\<close>

text \<open>
  Scores and counters are C++ \<open>int\<close>s of 32 bits. An overflow of a signed \<open>int\<close> is undefined in
  C++ and wraps around on the usual targets: the model writes the wrap-around out, with
  \<open>int32\<close> around every addition and multiplication of \<open>calc_across_pts\<close> and
  \<open>calc_col_cross_pts\<close>. The points of a tile table are read from \<open>int\<close>s as they are.
\<close>

definition int32 :: "int \<Rightarrow> int" where
  "int32 n = (n + 2147483648) mod 4294967296 - 2147483648"

text \<open>\<open>if (isupper(letter)) pts += global_tiles[letter - 'A'].points\<close>, in the \<open>while\<close> loops.\<close>

definition add_upper_points :: "Tile list \<Rightarrow> char \<Rightarrow> int \<Rightarrow> int" where
  "add_upper_points global_tiles ch pts =
     (if isupper ch then int32 (pts + tile_points global_tiles ch) else pts)"

text \<open>
  \<open>add_sqr_to_move\<close> appends a fresh \<open>Square\<close> of which it sets the row, the column and
  the letter. The source leaves its type and minimum length uninitialised (in the model they
  are unspecified); its cross-check vector is empty.
\<close>

definition add_sqr_to_move :: "int \<Rightarrow> int \<Rightarrow> char \<Rightarrow> Square list \<Rightarrow> Square list" where
  "add_sqr_to_move r c ch curr_move =
     curr_move @ [\<lparr>type = undefined, down_cross_check = [], letter = ch,
                   row = r, col = c, min_across_word_length = undefined\<rparr>]"

text \<open>The \<open>while\<close> loops of \<open>calc_col_cross_pts\<close>: up from the row above, down from the row below.\<close>

function col_pts_up :: "Tile list \<Rightarrow> SquareGrid \<Rightarrow> int \<Rightarrow> int \<Rightarrow> int \<Rightarrow> int" where
  "col_pts_up global_tiles board r c col_cross_pts =
     (if type (sq_at board r c) \<noteq> outside \<and> letter (sq_at board r c) \<noteq> CHR ''.''
      then col_pts_up global_tiles board (r - 1) c
             (add_upper_points global_tiles (letter (sq_at board r c)) col_cross_pts)
      else col_cross_pts)"
  by pat_completeness auto
termination
  by (relation "measure (\<lambda>(t, board, r, c, p). nat (r + 1))")
     (auto simp: sq_at_def in_grid_def off_board_def split: if_splits)

declare col_pts_up.simps [simp del]

function col_pts_down :: "Tile list \<Rightarrow> SquareGrid \<Rightarrow> int \<Rightarrow> int \<Rightarrow> int \<Rightarrow> int" where
  "col_pts_down global_tiles board r c col_cross_pts =
     (if type (sq_at board r c) \<noteq> outside \<and> letter (sq_at board r c) \<noteq> CHR ''.''
      then col_pts_down global_tiles board (r + 1) c
             (add_upper_points global_tiles (letter (sq_at board r c)) col_cross_pts)
      else col_cross_pts)"
  by pat_completeness auto
termination
  by (relation "measure (\<lambda>(t, board, r, c, p). nat (int (length board) - r))")
     (auto simp: sq_at_def in_grid_def off_board_def split: if_splits)

declare col_pts_down.simps [simp del]

definition calc_col_cross_pts :: "Tile list \<Rightarrow> SquareGrid \<Rightarrow> int \<Rightarrow> int \<Rightarrow> int" where
  "calc_col_cross_pts global_tiles board r c =
     col_pts_down global_tiles board (r + 1) c (col_pts_up global_tiles board (r - 1) c 0)"

text \<open>
  The first loop of \<open>calc_across_pts\<close>, over the squares of the move, on the four counters
  \<open>(row_pts, total_cross_pts, num_double_word, num_triple_word)\<close>.
\<close>

definition placed_letter_pts :: "Tile list \<Rightarrow> SquareGrid \<Rightarrow> Square \<Rightarrow> int" where
  "placed_letter_pts global_tiles board sqr =
     (let letter_pts = upper_points global_tiles (letter sqr)
      in if type (sq_at board (row sqr) (col sqr)) = double_letter then int32 (letter_pts * 2)
         else if type (sq_at board (row sqr) (col sqr)) = triple_letter then int32 (letter_pts * 3)
         else letter_pts)"

fun move_square_step ::
  "Tile list \<Rightarrow> SquareGrid \<Rightarrow> Square \<Rightarrow> int \<times> int \<times> int \<times> int \<Rightarrow> int \<times> int \<times> int \<times> int" where
  "move_square_step global_tiles board sqr
       (row_pts, total_cross_pts, num_double_word, num_triple_word) =
     (let r = row sqr; c = col sqr;
          letter_pts = placed_letter_pts global_tiles board sqr;
          col_cross_pts =
            (if letter (sq_at board (r - 1) c) \<noteq> CHR ''.'' \<or>
                letter (sq_at board (r + 1) c) \<noteq> CHR ''.''
             then int32 (int32 (0 + calc_col_cross_pts global_tiles board r c) + letter_pts)
             else 0)
      in if type (sq_at board r c) = double_word then
           (int32 (row_pts + letter_pts), int32 (total_cross_pts + int32 (col_cross_pts * 2)),
            int32 (num_double_word + 1), num_triple_word)
         else if type (sq_at board r c) = triple_word then
           (int32 (row_pts + letter_pts), int32 (total_cross_pts + int32 (col_cross_pts * 3)),
            num_double_word, int32 (num_triple_word + 1))
         else
           (int32 (row_pts + letter_pts), int32 (total_cross_pts + col_cross_pts),
            num_double_word, num_triple_word))"

text \<open>The three \<open>while\<close> loops that add the letters already on the row.\<close>

function row_pts_left :: "Tile list \<Rightarrow> SquareGrid \<Rightarrow> int \<Rightarrow> int \<Rightarrow> int \<Rightarrow> int" where
  "row_pts_left global_tiles board r c row_pts =
     (if type (sq_at board r c) \<noteq> outside \<and> letter (sq_at board r c) \<noteq> CHR ''.''
      then row_pts_left global_tiles board r (c - 1)
             (add_upper_points global_tiles (letter (sq_at board r c)) row_pts)
      else row_pts)"
  by pat_completeness auto
termination
  by (relation "measure (\<lambda>(t, board, r, c, p). nat (c + 1))")
     (auto simp: sq_at_def in_grid_def off_board_def split: if_splits)

declare row_pts_left.simps [simp del]

function row_pts_between :: "Tile list \<Rightarrow> SquareGrid \<Rightarrow> int \<Rightarrow> int \<Rightarrow> int \<Rightarrow> int \<Rightarrow> int" where
  "row_pts_between global_tiles board r c last_col row_pts =
     (if c \<le> last_col
      then row_pts_between global_tiles board r (c + 1) last_col
             (add_upper_points global_tiles (letter (sq_at board r c)) row_pts)
      else row_pts)"
  by pat_completeness auto
termination
  by (relation "measure (\<lambda>(t, board, r, c, l, p). nat (l + 1 - c))") auto

declare row_pts_between.simps [simp del]

function row_pts_right :: "Tile list \<Rightarrow> SquareGrid \<Rightarrow> int \<Rightarrow> int \<Rightarrow> int \<Rightarrow> int" where
  "row_pts_right global_tiles board r c row_pts =
     (if type (sq_at board r c) \<noteq> outside \<and> letter (sq_at board r c) \<noteq> CHR ''.''
      then row_pts_right global_tiles board r (c + 1)
             (add_upper_points global_tiles (letter (sq_at board r c)) row_pts)
      else row_pts)"
  by pat_completeness auto
termination
  by (relation "measure (\<lambda>(t, board, r, c, p). nat (int (length (board ! nat r)) - c))")
     (auto simp: sq_at_def in_grid_def off_board_def split: if_splits)

declare row_pts_right.simps [simp del]

text \<open>\<open>for (int i = 1; i <= n; i++) row_pts *= k\<close>\<close>

definition word_bonus_loop :: "int \<Rightarrow> int \<Rightarrow> int \<Rightarrow> int" where
  "word_bonus_loop k n row_pts = fold (\<lambda>i p. int32 (p * k)) [1..n] row_pts"

text \<open>The value of \<open>row_pts\<close> when the three \<open>while\<close> loops are done, before the word bonuses.\<close>

definition row_pts_before_bonus :: "Tile list \<Rightarrow> SquareGrid \<Rightarrow> Square list \<Rightarrow> int" where
  "row_pts_before_bonus global_tiles board across_move =
     (let r = row (across_move ! 0);
          counters = fold (move_square_step global_tiles board) across_move (0, 0, 0, 0);
          p1 = row_pts_left global_tiles board r (col (across_move ! 0) - 1) (fst counters);
          p2 = row_pts_between global_tiles board r (col (across_move ! 0))
                 (col (across_move ! (length across_move - 1))) p1
      in row_pts_right global_tiles board r
           (col (across_move ! (length across_move - 1)) + 1) p2)"

definition calc_across_pts :: "Tile list \<Rightarrow> SquareGrid \<Rightarrow> Square list \<Rightarrow> int" where
  "calc_across_pts global_tiles board across_move =
     (if length across_move = 0 then 0
      else
        (let counters = fold (move_square_step global_tiles board) across_move (0, 0, 0, 0);
             total_cross_pts = fst (snd counters);
             num_double_word = fst (snd (snd counters));
             num_triple_word = snd (snd (snd counters));
             row_pts = word_bonus_loop 3 num_triple_word
                         (word_bonus_loop 2 num_double_word
                            (row_pts_before_bonus global_tiles board across_move))
         in if length across_move \<ge> 7 then int32 (int32 (row_pts + total_cross_pts) + 50)
            else int32 (row_pts + total_cross_pts)))"

section \<open>The search\<close>

text \<open>\<open>(unsigned int) min_word_length\<close>, for a 32-bit \<open>int\<close>.\<close>

definition to_unsigned :: "int \<Rightarrow> int" where
  "to_unsigned n = n mod 4294967296"

text \<open>
  \<open>extend_right\<close> takes the rack and the current move by value and the best move and its
  points by reference: the model passes the pair \<open>best = (best_move, best_pts)\<close> in and
  returns it updated. \<open>extend_children\<close> is its \<open>for\<close> loop over the children of the node,
  on the local variables \<open>(rack, curr_square, curr_move)\<close> and \<open>best\<close>; it gets the children
  that are still to visit. A child index outside the children vector (which no trie built by
  \<open>insert_into_trie\<close> has) ends the branch.
\<close>

function extend_right ::
    "Tile list \<Rightarrow> SquareGrid \<Rightarrow> int list \<Rightarrow> TrieNode \<Rightarrow> Square \<Rightarrow> int \<Rightarrow> Square list \<Rightarrow>
     Square list \<times> int \<Rightarrow> Square list \<times> int"
  and extend_children ::
    "Tile list \<Rightarrow> SquareGrid \<Rightarrow> TrieNode list \<Rightarrow> Square \<Rightarrow> int \<Rightarrow>
     int list \<times> Square \<times> Square list \<times> (Square list \<times> int) \<Rightarrow>
     int list \<times> Square \<times> Square list \<times> (Square list \<times> int)"
where
  "extend_right global_tiles board rack node curr_square min_word_length curr_move best =
     (let sqr = sq_at board (row curr_square) (col curr_square)
      in if type sqr = outside then best
         else if letter sqr = CHR ''.'' then
           (let best1 =
                  (if is_terminal_node node \<and>
                      int (length curr_move) \<ge> to_unsigned min_word_length
                   then (let curr_pts = calc_across_pts global_tiles board curr_move
                         in if curr_pts > snd best then (curr_move, curr_pts) else best)
                   else best)
            in snd (snd (snd (extend_children global_tiles board (children node) sqr
                                min_word_length (rack, curr_square, curr_move, best1)))))
         else
           (let sqr_letter_index = letter_index (toupper (letter sqr));
                child_index = letter_indexes node ! nat sqr_letter_index
            in if child_index \<noteq> - 1 then
                 (if 0 \<le> child_index \<and> nat child_index < length (children node) then
                    extend_right global_tiles board rack (children node ! nat child_index)
                      (sq_at board (row curr_square) (col curr_square + 1))
                      min_word_length curr_move best
                  else best)
               else best))"
| "extend_children global_tiles board [] sqr min_word_length state = state"
| "extend_children global_tiles board (child # rest) sqr min_word_length
       (rack, curr_square, curr_move, best) =
     (let child_letter = trie_letter child;
          child_letter_index = nat (letter_index child_letter)
      in if rack ! child_letter_index > 0 \<and> down_cross_check sqr ! child_letter_index then
           (let rack1 = rack[child_letter_index := rack ! child_letter_index - 1];
                curr_move1 = add_sqr_to_move (row sqr) (col sqr) child_letter curr_move;
                curr_square1 = sq_at board (row sqr) (col sqr + 1);
                best1 = extend_right global_tiles board rack1 child curr_square1
                          min_word_length curr_move1 best;
                curr_move2 = butlast curr_move1;
                rack2 = rack1[child_letter_index := rack1 ! child_letter_index + 1]
            in extend_children global_tiles board rest sqr min_word_length
                 (rack2, sqr, curr_move2, best1))
         else if rack ! 26 > 0 \<and> down_cross_check sqr ! child_letter_index then
           (let rack1 = rack[26 := rack ! 26 - 1];
                curr_move1 = add_sqr_to_move (row sqr) (col sqr) (tolower child_letter)
                               curr_move;
                curr_square1 = sq_at board (row sqr) (col sqr + 1);
                best1 = extend_right global_tiles board rack1 child curr_square1
                          min_word_length curr_move1 best;
                curr_move2 = butlast curr_move1;
                rack2 = rack1[26 := rack1 ! 26 + 1]
            in extend_children global_tiles board rest sqr min_word_length
                 (rack2, sqr, curr_move2, best1))
         else extend_children global_tiles board rest sqr min_word_length
                (rack, curr_square, curr_move, best))"
  by pat_completeness auto
termination
proof (relation "measure (\<lambda>x. case x of
          Inl (t, b, rack, node, cs, m, mv, best) \<Rightarrow> 2 * size node
        | Inr (t, b, nodes, sqr, m, st) \<Rightarrow> 2 * size_list size nodes + 1)", goal_cases)
  case 1
  show ?case by simp
next
  case (2 global_tiles board rack node)
  show ?case by (cases node) simp
next
  case (3 global_tiles board rack node curr_square min_word_length curr_move best
          sqr sqr_letter_index child_index)
  then have "children node ! nat child_index \<in> set (children node)"
    by simp
  then have "size (children node ! nat child_index) \<le> size_list size (children node)"
    by (simp add: size_list_estimation')
  then show ?case by (cases node) simp
qed simp_all

declare extend_right.simps [simp del]

section \<open>Best across move, transposition, best down move\<close>

text \<open>
  The dictionary, the trie and the tile table are the globals \<open>global_words\<close>,
  \<open>global_trie_root\<close> and \<open>global_tiles\<close> of the source; the model passes them as arguments.
\<close>

definition try_square ::
  "Tile list \<Rightarrow> TrieNode \<Rightarrow> SquareGrid \<Rightarrow> int list \<Rightarrow> int \<Rightarrow> int \<Rightarrow>
   Square list \<times> int \<Rightarrow> Square list \<times> int" where
  "try_square global_tiles global_trie_root board rack r c best =
     (let sqr = sq_at board r c;
          min_word_length = min_across_word_length sqr
      in if min_word_length \<le> NUM_RACK_TILES \<and> min_word_length \<noteq> - 1
         then extend_right global_tiles board rack global_trie_root sqr min_word_length [] best
         else best)"

definition find_best_across_move ::
  "Tile list \<Rightarrow> TrieNode \<Rightarrow> SquareGrid \<Rightarrow> int list \<Rightarrow> Square list" where
  "find_best_across_move global_tiles global_trie_root board rack =
     fst (fold (\<lambda>r. fold (try_square global_tiles global_trie_root board rack r)
                          [1..NUM_BOARD_COLS])
               [1..NUM_BOARD_ROWS] ([], 0))"

text \<open>
  \<open>invert_board\<close> copies the board, stores in every playable square of the copy the square
  across the diagonal with its row and column set (\<open>transpose_squares\<close>), and updates the
  cross-checks and minimum lengths of the copy.
\<close>

definition invert_cell :: "SquareGrid \<Rightarrow> int \<Rightarrow> int \<Rightarrow> SquareGrid \<Rightarrow> SquareGrid" where
  "invert_cell board r c inverted_board =
     sq_put inverted_board r c ((sq_at board c r)\<lparr>row := r, col := c\<rparr>)"

definition transpose_squares :: "SquareGrid \<Rightarrow> SquareGrid" where
  "transpose_squares board =
     fold (\<lambda>r. fold (invert_cell board r) [1..NUM_BOARD_COLS]) [1..NUM_BOARD_ROWS] board"

definition invert_board :: "Lexicon \<Rightarrow> SquareGrid \<Rightarrow> SquareGrid" where
  "invert_board global_words board =
     update_min_across_word_length
       (update_down_cross_checks global_words (transpose_squares board))"

definition invert_move :: "Square list \<Rightarrow> Square list" where
  "invert_move across_move = map (\<lambda>s. s\<lparr>row := col s, col := row s\<rparr>) across_move"

definition find_best_down_move ::
  "Lexicon \<Rightarrow> Tile list \<Rightarrow> TrieNode \<Rightarrow> SquareGrid \<Rightarrow> int list \<Rightarrow> Square list" where
  "find_best_down_move global_words global_tiles global_trie_root board rack =
     invert_move (find_best_across_move global_tiles global_trie_root
                    (invert_board global_words board) rack)"

definition calc_down_pts :: "Lexicon \<Rightarrow> Tile list \<Rightarrow> SquareGrid \<Rightarrow> Square list \<Rightarrow> int" where
  "calc_down_pts global_words global_tiles board down_move =
     calc_across_pts global_tiles (invert_board global_words board) (invert_move down_move)"

section \<open>Best move\<close>

text \<open>Whether some playable square holds a tile: the scan that opens \<open>find_best_move\<close>.\<close>

definition has_tile :: "SquareGrid \<Rightarrow> bool" where
  "has_tile board \<longleftrightarrow>
     list_ex (\<lambda>r. list_ex (\<lambda>c. letter (sq_at board r c) \<noteq> CHR ''.'') [1..NUM_BOARD_COLS])
             [1..NUM_BOARD_ROWS]"

definition mid_row :: int where
  "mid_row = NUM_BOARD_ROWS div 2 + 1"

definition mid_col :: int where
  "mid_col = NUM_BOARD_COLS div 2 + 1"

text \<open>
  The loop for the first move of a game, on the function's own copy of the board and \<open>best\<close>.
  Its body first stores the minimum length of the square at column \<open>c\<close> of the middle row.
\<close>

definition set_first_move_min :: "SquareGrid \<Rightarrow> int \<Rightarrow> SquareGrid" where
  "set_first_move_min board c =
     (let board1 = set_min board mid_row c (mid_col - c + 1)
      in if c = mid_col then set_min board1 mid_row mid_col 2 else board1)"

fun first_move_step ::
  "Tile list \<Rightarrow> TrieNode \<Rightarrow> int list \<Rightarrow> int \<Rightarrow> SquareGrid \<times> (Square list \<times> int) \<Rightarrow>
   SquareGrid \<times> (Square list \<times> int)" where
  "first_move_step global_tiles global_trie_root rack c (board, best) =
     (let board2 = set_first_move_min board c;
          sqr = sq_at board2 mid_row c;
          min_word_length = min_across_word_length sqr
      in if min_word_length \<le> NUM_RACK_TILES \<and> min_word_length \<noteq> - 1
         then (board2, extend_right global_tiles board2 rack global_trie_root sqr
                         min_word_length [] best)
         else (board2, best))"

text \<open>
  \<open>find_best_move\<close> has \<open>best_move\<close> and \<open>best_pts\<close> as reference parameters: the model gets
  their values at the call (the console loop passes the empty move and 0) and returns them.
  The scan for a tile returns from inside the two loops at the first tile it meets, and what
  it does there does not depend on where the tile is.
\<close>

definition find_best_move ::
  "Lexicon \<Rightarrow> Tile list \<Rightarrow> TrieNode \<Rightarrow> SquareGrid \<Rightarrow> int list \<Rightarrow> Square list \<times> int \<Rightarrow>
   Square list \<times> int" where
  "find_best_move global_words global_tiles global_trie_root board rack best =
     (if has_tile board then
        (let best_across_move = find_best_across_move global_tiles global_trie_root board rack;
             best_down_move = find_best_down_move global_words global_tiles global_trie_root
                                board rack;
             best_across_pts = calc_across_pts global_tiles board best_across_move;
             best_down_pts = calc_down_pts global_words global_tiles board best_down_move
         in if best_across_pts > best_down_pts then (best_across_move, best_across_pts)
            else (best_down_move, best_down_pts))
      else
        snd (fold (first_move_step global_tiles global_trie_root rack) [1..mid_col]
                  (board, best)))"

section \<open>Committing a move\<close>

definition add_move_to_board :: "Lexicon \<Rightarrow> SquareGrid \<Rightarrow> Square list \<Rightarrow> SquareGrid" where
  "add_move_to_board global_words board move =
     update_min_across_word_length
       (update_down_cross_checks global_words
          (fold (\<lambda>s b. sq_put b (row s) (col s) s) move board))"

section \<open>The written value of a square, cell by cell\<close>

text \<open>
  \<open>update_min_across_word_length\<close> reads only letters and writes only minimum lengths, so
  what it stores in a square can be computed on the board it started from: \<open>cell_min\<close> is the
  value the loop body stores under the running \<open>min_word_length\<close> \<open>m\<close>, \<open>mwl_next\<close> the running
  value it leaves, and \<open>row_min_at\<close> follows them along the columns of a row, giving what is
  stored in column \<open>c\<close> (or \<open>d\<close>, the old value, if the loop does not come by \<open>c\<close>).
\<close>

definition mwl_next :: "SquareGrid \<Rightarrow> int \<Rightarrow> int \<Rightarrow> int \<Rightarrow> int" where
  "mwl_next board r c m = snd (min_across_cell r c (board, m))"

definition cell_min :: "SquareGrid \<Rightarrow> int \<Rightarrow> int \<Rightarrow> int \<Rightarrow> int" where
  "cell_min board r c m =
     (if letter (sq_at board r (c - 1)) \<noteq> CHR ''.'' then - 1
      else if letter (sq_at board (r - 1) c) \<noteq> CHR ''.'' \<or>
              letter (sq_at board (r + 1) c) \<noteq> CHR ''.'' \<or>
              letter (sq_at board r (c + 1)) \<noteq> CHR ''.'' \<or>
              letter (sq_at board r c) \<noteq> CHR ''.'' then 1
      else if m = - 1 then - 1
      else m + 1)"

fun row_min_at :: "SquareGrid \<Rightarrow> int \<Rightarrow> int list \<Rightarrow> int \<Rightarrow> int \<Rightarrow> int \<Rightarrow> int" where
  "row_min_at board r [] m c d = d"
| "row_min_at board r (x # xs) m c d =
     row_min_at board r xs (mwl_next board r x m) c (if x = c then cell_min board r x m else d)"

definition same_letters :: "SquareGrid \<Rightarrow> SquareGrid \<Rightarrow> bool" where
  "same_letters b b' \<longleftrightarrow> (\<forall>r c. letter (sq_at b' r c) = letter (sq_at b r c))"

section \<open>Example inputs\<close>

text \<open>The layout of the standard board, in the key of the layout file, and the empty board.\<close>

definition scrabble_layout :: "string list" where
  "scrabble_layout =
     [''xxxxxxxxxxxxxxxxx'',
      ''xW..l...W...l..Wx'',
      ''x.w...L...L...w.x'',
      ''x..w...l.l...w..x'',
      ''xl..w...l...w..lx'',
      ''x....w.....w....x'',
      ''x.L...L...L...L.x'',
      ''x..l...l.l...l..x'',
      ''xW..l...w...l..Wx'',
      ''x..l...l.l...l..x'',
      ''x.L...L...L...L.x'',
      ''x....w.....w....x'',
      ''xl..w...l...w..lx'',
      ''x..w...l.l...w..x'',
      ''x.w...L...L...w.x'',
      ''xW..l...W...l..Wx'',
      ''xxxxxxxxxxxxxxxxx'']"

definition start_board :: SquareGrid where
  "start_board = read_board_data scrabble_layout"

section \<open>Counting bonus squares; tile values and a position with two word bonuses\<close>

text \<open>
  \<open>num_cells\<close> counts the squares of a move that lie on a bonus square of a given type, and
  \<open>total_cross_pts\<close> is the counter of that name when the first loop of \<open>calc_across_pts\<close> is
  done. \<open>scrabble_tiles\<close> is the standard tile table. On \<open>protest_board\<close> the letters ROTEST
  lie in columns 2 to 7 of the middle row; \<open>protests_move\<close> adds a P on the triple-word square
  in column 1 and an S on the double-word square in column 8.
\<close>

definition num_cells :: "SquareType \<Rightarrow> SquareGrid \<Rightarrow> Square list \<Rightarrow> nat" where
  "num_cells ty board across_move =
     length (filter (\<lambda>s. type (sq_at board (row s) (col s)) = ty) across_move)"

definition total_cross_pts :: "Tile list \<Rightarrow> SquareGrid \<Rightarrow> Square list \<Rightarrow> int" where
  "total_cross_pts global_tiles board across_move =
     fst (snd (fold (move_square_step global_tiles board) across_move (0, 0, 0, 0)))"

definition scrabble_tiles :: "Tile list" where
  "scrabble_tiles =
     map (\<lambda>(ch, p, n). \<lparr>tile_letter = ch, points = p, total = n\<rparr>)
       [(CHR ''A'', 1, 9), (CHR ''B'', 3, 2), (CHR ''C'', 3, 2), (CHR ''D'', 2, 4),
        (CHR ''E'', 1, 12), (CHR ''F'', 4, 2), (CHR ''G'', 2, 3), (CHR ''H'', 4, 2),
        (CHR ''I'', 1, 9), (CHR ''J'', 8, 1), (CHR ''K'', 5, 1), (CHR ''L'', 1, 4),
        (CHR ''M'', 3, 2), (CHR ''N'', 1, 6), (CHR ''O'', 1, 8), (CHR ''P'', 3, 2),
        (CHR ''Q'', 10, 1), (CHR ''R'', 1, 6), (CHR ''S'', 1, 4), (CHR ''T'', 1, 6),
        (CHR ''U'', 1, 4), (CHR ''V'', 4, 2), (CHR ''W'', 4, 2), (CHR ''X'', 8, 1),
        (CHR ''Y'', 4, 2), (CHR ''Z'', 10, 1), (CHR ''*'', 0, 2)]"

definition protest_board :: SquareGrid where
  "protest_board =
     set_letter (set_letter (set_letter (set_letter (set_letter (set_letter start_board
       8 2 (CHR ''R'')) 8 3 (CHR ''O'')) 8 4 (CHR ''T'')) 8 5 (CHR ''E'')) 8 6 (CHR ''S''))
       8 7 (CHR ''T'')"

definition protests_move :: "Square list" where
  "protests_move = add_sqr_to_move 8 8 (CHR ''S'') (add_sqr_to_move 8 1 (CHR ''P'') [])"

text \<open>The values of a C++ \<open>int\<close> of 32 bits.\<close>

definition is_int32 :: "int \<Rightarrow> bool" where
  "is_int32 n \<longleftrightarrow> - 2147483648 \<le> n \<and> n < 2147483648"

section \<open>The cross-check set of a square, cell by cell\<close>

text \<open>
  \<open>update_down_cross_checks\<close> reads only letters and types and writes only cross-check sets:
  \<open>new_cross_check\<close> is the set the loop over the 26 letters leaves, \<open>cross_checked\<close> the
  square that one turn of the inner loop leaves at row \<open>r\<close>, column \<open>c\<close>.
\<close>

definition new_cross_check :: "Lexicon \<Rightarrow> string \<Rightarrow> string \<Rightarrow> bool list \<Rightarrow> bool list" where
  "new_cross_check global_words above_square below_square d =
     fold (\<lambda>test_letter d.
             d[nat (test_letter - 65) :=
                 (above_square @ [char_of (nat test_letter)] @ below_square \<in> set global_words)])
          [65..90] d"

definition cross_checked :: "Lexicon \<Rightarrow> SquareGrid \<Rightarrow> int \<Rightarrow> int \<Rightarrow> Square" where
  "cross_checked global_words board r c =
     (if letter (sq_at board r c) = CHR ''.'' \<and>
         \<not> (above_fragment board (r - 1) c [] = [] \<and> below_fragment board (r + 1) c [] = [])
      then (sq_at board r c)\<lparr>down_cross_check :=
              new_cross_check global_words (above_fragment board (r - 1) c [])
                (below_fragment board (r + 1) c []) (down_cross_check (sq_at board r c))\<rparr>
      else sq_at board r c)"

definition same_tiles :: "SquareGrid \<Rightarrow> SquareGrid \<Rightarrow> bool" where
  "same_tiles b b' \<longleftrightarrow>
     (\<forall>r c. letter (sq_at b' r c) = letter (sq_at b r c) \<and> type (sq_at b' r c) = type (sq_at b r c))"

section \<open>The call tree of the search\<close>

text \<open>
  \<open>extend_right_calls\<close> lists the arguments \<open>(rack, node, curr_square, curr_move)\<close> of every
  call of \<open>extend_right\<close> that one call makes, itself first, in the order of execution. It
  follows \<open>extend_right\<close> line by line and threads the same local variables through the loop
  over the children. A call is complete when it passes the test for a legal move, and
  \<open>complete_moves\<close> are the moves of the complete calls, in order; \<open>keep_better\<close> is what the
  search does with each of them.
\<close>

type_synonym call = "int list \<times> TrieNode \<times> Square \<times> Square list"

function extend_right_calls ::
    "SquareGrid \<Rightarrow> int list \<Rightarrow> TrieNode \<Rightarrow> Square \<Rightarrow> Square list \<Rightarrow> call list"
  and extend_children_calls ::
    "SquareGrid \<Rightarrow> TrieNode list \<Rightarrow> Square \<Rightarrow> int list \<times> Square \<times> Square list \<Rightarrow>
     call list \<times> (int list \<times> Square \<times> Square list)"
where
  "extend_right_calls board rack node curr_square curr_move =
     (rack, node, curr_square, curr_move) #
     (let sqr = sq_at board (row curr_square) (col curr_square)
      in if type sqr = outside then []
         else if letter sqr = CHR ''.'' then
           fst (extend_children_calls board (children node) sqr (rack, curr_square, curr_move))
         else
           (let sqr_letter_index = letter_index (toupper (letter sqr));
                child_index = letter_indexes node ! nat sqr_letter_index
            in if child_index \<noteq> - 1 then
                 (if 0 \<le> child_index \<and> nat child_index < length (children node) then
                    extend_right_calls board rack (children node ! nat child_index)
                      (sq_at board (row curr_square) (col curr_square + 1)) curr_move
                  else [])
               else []))"
| "extend_children_calls board [] sqr state = ([], state)"
| "extend_children_calls board (child # rest) sqr (rack, curr_square, curr_move) =
     (let child_letter = trie_letter child;
          child_letter_index = nat (letter_index child_letter)
      in if rack ! child_letter_index > 0 \<and> down_cross_check sqr ! child_letter_index then
           (let rack1 = rack[child_letter_index := rack ! child_letter_index - 1];
                curr_move1 = add_sqr_to_move (row sqr) (col sqr) child_letter curr_move;
                curr_square1 = sq_at board (row sqr) (col sqr + 1);
                calls1 = extend_right_calls board rack1 child curr_square1 curr_move1;
                curr_move2 = butlast curr_move1;
                rack2 = rack1[child_letter_index := rack1 ! child_letter_index + 1];
                later = extend_children_calls board rest sqr (rack2, sqr, curr_move2)
            in (calls1 @ fst later, snd later))
         else if rack ! 26 > 0 \<and> down_cross_check sqr ! child_letter_index then
           (let rack1 = rack[26 := rack ! 26 - 1];
                curr_move1 = add_sqr_to_move (row sqr) (col sqr) (tolower child_letter)
                               curr_move;
                curr_square1 = sq_at board (row sqr) (col sqr + 1);
                calls1 = extend_right_calls board rack1 child curr_square1 curr_move1;
                curr_move2 = butlast curr_move1;
                rack2 = rack1[26 := rack1 ! 26 + 1];
                later = extend_children_calls board rest sqr (rack2, sqr, curr_move2)
            in (calls1 @ fst later, snd later))
         else extend_children_calls board rest sqr (rack, curr_square, curr_move))"
  by pat_completeness auto
termination
proof (relation "measure (\<lambda>x. case x of
          Inl (b, rack, node, cs, mv) \<Rightarrow> 2 * size node
        | Inr (b, nodes, sqr, st) \<Rightarrow> 2 * size_list size nodes + 1)", goal_cases)
  case 1
  show ?case by simp
next
  case (2 board rack node)
  show ?case by (cases node) simp
next
  case (3 board rack node curr_square curr_move sqr sqr_letter_index child_index)
  then have "children node ! nat child_index \<in> set (children node)"
    by simp
  then have "size (children node ! nat child_index) \<le> size_list size (children node)"
    by (simp add: size_list_estimation')
  then show ?case by (cases node) simp
qed simp_all

declare extend_right_calls.simps [simp del]

definition complete_call :: "SquareGrid \<Rightarrow> int \<Rightarrow> call \<Rightarrow> bool" where
  "complete_call board min_word_length call =
     (case call of (rack, node, curr_square, curr_move) \<Rightarrow>
        (let sqr = sq_at board (row curr_square) (col curr_square)
         in type sqr \<noteq> outside \<and> letter sqr = CHR ''.'' \<and> is_terminal_node node \<and>
            int (length curr_move) \<ge> to_unsigned min_word_length))"

definition completed :: "SquareGrid \<Rightarrow> int \<Rightarrow> call list \<Rightarrow> Square list list" where
  "completed board min_word_length calls =
     map (\<lambda>call. snd (snd (snd call))) (filter (complete_call board min_word_length) calls)"

definition complete_moves ::
  "SquareGrid \<Rightarrow> int list \<Rightarrow> TrieNode \<Rightarrow> Square \<Rightarrow> int \<Rightarrow> Square list \<Rightarrow> Square list list" where
  "complete_moves board rack node curr_square min_word_length curr_move =
     completed board min_word_length (extend_right_calls board rack node curr_square curr_move)"

definition keep_better ::
  "Tile list \<Rightarrow> SquareGrid \<Rightarrow> Square list \<Rightarrow> Square list \<times> int \<Rightarrow> Square list \<times> int" where
  "keep_better global_tiles board curr_move best =
     (let curr_pts = calc_across_pts global_tiles board curr_move
      in if curr_pts > snd best then (curr_move, curr_pts) else best)"

definition rack_ok :: "int list \<Rightarrow> bool" where
  "rack_ok rack \<longleftrightarrow> (\<forall>n \<in> set rack. 0 \<le> n)"

section \<open>One branch for each child\<close>

text \<open>
  What one turn of the loop over the children does to \<open>best\<close>, on the rack and the current
  move of the call: it places the letter of the child from the rack if the rack has it and
  the square allows it, else a blank if the rack has one, and searches on from there.
\<close>

definition try_child ::
  "Tile list \<Rightarrow> SquareGrid \<Rightarrow> int list \<Rightarrow> Square \<Rightarrow> int \<Rightarrow> Square list \<Rightarrow> TrieNode \<Rightarrow>
   Square list \<times> int \<Rightarrow> Square list \<times> int" where
  "try_child global_tiles board rack sqr min_word_length curr_move child best =
     (let i = nat (letter_index (trie_letter child));
          next_square = sq_at board (row sqr) (col sqr + 1)
      in if rack ! i > 0 \<and> down_cross_check sqr ! i then
           extend_right global_tiles board (rack[i := rack ! i - 1]) child next_square
             min_word_length
             (add_sqr_to_move (row sqr) (col sqr) (trie_letter child) curr_move) best
         else if rack ! 26 > 0 \<and> down_cross_check sqr ! i then
           extend_right global_tiles board (rack[26 := rack ! 26 - 1]) child next_square
             min_word_length
             (add_sqr_to_move (row sqr) (col sqr) (tolower (trie_letter child)) curr_move) best
         else best)"

section \<open>The moves the search completes, square by square\<close>

text \<open>
  \<open>cell_candidates\<close> are the moves the search completes from one square, if it starts there;
  \<open>across_candidates\<close> are those of the whole board, in the order of the two loops of
  \<open>find_best_across_move\<close>, and \<open>first_move_candidates\<close> those of the loop for the first move,
  each with the board the loop has at that time. \<open>legal_moves\<close> are all the moves that
  \<open>find_best_move\<close> chooses from: a move that passes the test of the search is what the
  search takes for a complete, legal move. \<open>first_move_call\<close> is the body of the loop for the
  first move with the minimum length written out.
\<close>

definition cell_candidates ::
  "TrieNode \<Rightarrow> SquareGrid \<Rightarrow> int list \<Rightarrow> int \<Rightarrow> int \<Rightarrow> Square list list" where
  "cell_candidates global_trie_root board rack r c =
     (let sqr = sq_at board r c;
          min_word_length = min_across_word_length sqr
      in if min_word_length \<le> NUM_RACK_TILES \<and> min_word_length \<noteq> - 1
         then complete_moves board rack global_trie_root sqr min_word_length []
         else [])"

definition row_candidates ::
  "TrieNode \<Rightarrow> SquareGrid \<Rightarrow> int list \<Rightarrow> int \<Rightarrow> Square list list" where
  "row_candidates global_trie_root board rack r =
     concat (map (cell_candidates global_trie_root board rack r) [1..NUM_BOARD_COLS])"

definition across_candidates :: "TrieNode \<Rightarrow> SquareGrid \<Rightarrow> int list \<Rightarrow> Square list list" where
  "across_candidates global_trie_root board rack =
     concat (map (row_candidates global_trie_root board rack) [1..NUM_BOARD_ROWS])"



definition first_move_call ::
  "Tile list \<Rightarrow> TrieNode \<Rightarrow> int list \<Rightarrow> int \<Rightarrow> SquareGrid \<times> (Square list \<times> int) \<Rightarrow>
   SquareGrid \<times> (Square list \<times> int)" where
  "first_move_call global_tiles global_trie_root rack c state =
     (let board2 = set_first_move_min (fst state) c
      in (board2,
          if 2 \<le> c
          then extend_right global_tiles board2 rack global_trie_root (sq_at board2 mid_row c)
                 (if c = mid_col then 2 else mid_col - c + 1) [] (snd state)
          else snd state))"



section \<open>Where the word of a move ends\<close>

text \<open>
  \<open>word_end\<close> goes right from a column over the squares that hold a tile, as the last loop of
  \<open>calc_across_pts\<close> does, and gives the column of the first square that holds none. A move
  \<open>ends_before_empty\<close> if that square, after its last new tile, is playable and empty.
  \<open>run_ok\<close> is the invariant of the search: between the last new tile and the current square
  there are only tiles that were already on the board.
\<close>

definition occupied :: "SquareGrid \<Rightarrow> int \<Rightarrow> int \<Rightarrow> bool" where
  "occupied board r c \<longleftrightarrow>
     type (sq_at board r c) \<noteq> outside \<and> letter (sq_at board r c) \<noteq> CHR ''.''"

function word_end :: "SquareGrid \<Rightarrow> int \<Rightarrow> int \<Rightarrow> int" where
  "word_end board r c = (if occupied board r c then word_end board r (c + 1) else c)"
  by pat_completeness auto
termination
  by (relation "measure (\<lambda>(board, r, c). nat (int (length (board ! nat r)) - c))")
     (auto simp: occupied_def sq_at_def in_grid_def off_board_def split: if_splits)

declare word_end.simps [simp del]

definition ends_before_empty :: "SquareGrid \<Rightarrow> Square list \<Rightarrow> bool" where
  "ends_before_empty board move =
     (let r = row (last move);
          e = word_end board r (col (last move) + 1)
      in type (sq_at board r e) \<noteq> outside \<and> letter (sq_at board r e) = CHR ''.'')"

definition run_ok :: "SquareGrid \<Rightarrow> Square \<Rightarrow> Square list \<Rightarrow> bool" where
  "run_ok board curr_square curr_move \<longleftrightarrow>
     curr_move = [] \<or>
     (row (last curr_move) = row curr_square \<and> col (last curr_move) < col curr_square \<and>
      (\<forall>c. col (last curr_move) < c \<and> c < col curr_square \<longrightarrow>
           occupied board (row curr_square) c))"

section \<open>Positions for the examples\<close>

text \<open>
  The board with the tile A in the middle, its cross-checks and minimum lengths updated as
  the console loop does before it searches, with the words ATE and AT and the racks TE and
  QZ; a move of one square that is of type \<open>regular\<close>; the tiles A and R in the middle row
  with the words TAR and EAR and the rack ET; the tile B in row 7 with the word ABA and the
  rack of an A and a blank.
\<close>

definition ate_words :: Lexicon where
  "ate_words = [''ATE'', ''AT'']"

definition center_a_board :: SquareGrid where
  "center_a_board =
     update_min_across_word_length
       (update_down_cross_checks ate_words (set_letter start_board 8 8 (CHR ''A'')))"

definition ate_trie :: TrieNode where
  "ate_trie = create_word_trie ate_words"

definition te_rack :: "int list" where
  "te_rack = fill_rack ''TE''"

definition te_across_move :: "Square list" where
  "te_across_move = add_sqr_to_move 8 10 (CHR ''E'') (add_sqr_to_move 8 9 (CHR ''T'') [])"


definition plain_a_square :: Square where
  "plain_a_square = \<lparr>type = regular, down_cross_check = [], letter = CHR ''A'',
                      row = 8, col = 8, min_across_word_length = 0\<rparr>"

definition ar_board :: SquareGrid where
  "ar_board = set_letter (set_letter start_board 8 8 (CHR ''A'')) 8 9 (CHR ''R'')"

definition tar_ear_trie :: TrieNode where
  "tar_ear_trie = create_word_trie [''TAR'', ''EAR'']"

definition et_rack :: "int list" where
  "et_rack = fill_rack ''ET''"

definition b_board :: SquareGrid where
  "b_board = set_letter start_board 7 2 (CHR ''B'')"

definition aba_trie :: TrieNode where
  "aba_trie = create_word_trie [''ABA'']"

definition a_blank_rack :: "int list" where
  "a_blank_rack = fill_rack ''A*''"

section \<open>Boards of the same shape\<close>

text \<open>
  The updates of a board change squares, never the sizes of the vectors.
\<close>

definition same_shape :: "SquareGrid \<Rightarrow> SquareGrid \<Rightarrow> bool" where
  "same_shape b b' \<longleftrightarrow> length b' = length b \<and> (\<forall>i. length (b' ! i) = length (b ! i))"

section \<open>Squares of a board\<close>

lemma length_sq_put [simp]: "length (sq_put b r c s) = length b"
  by (simp add: sq_put_def)

lemma length_sq_put_row [simp]: "length (sq_put b r c s ! i) = length (b ! i)"
  by (cases "i = nat r") (auto simp: sq_put_def in_grid_def)

lemma in_grid_sq_put [simp]: "in_grid (sq_put b r c s) r' c' = in_grid b r' c'"
  by (simp add: in_grid_def)

lemma sq_at_sq_put:
  "sq_at (sq_put b r c s) r' c' = (if r' = r \<and> c' = c \<and> in_grid b r c then s else sq_at b r' c')"
proof (cases "in_grid b r c")
  case False
  then show ?thesis by (simp add: sq_put_def)
next
  case True
  then show ?thesis
    unfolding sq_at_def in_grid_sq_put
    by (auto simp: in_grid_def sq_put_def nth_list_update nat_eq_iff)
qed

lemma outside_in_grid: "type (sq_at b r c) \<noteq> outside \<Longrightarrow> in_grid b r c"
  by (auto simp: sq_at_def off_board_def split: if_splits)

lemma in_grid_set_min [simp]: "in_grid (set_min b r c v) r' c' = in_grid b r' c'"
  by (simp add: set_min_def)

lemma sq_at_set_min:
  "sq_at (set_min b r c v) r' c' =
     (if r' = r \<and> c' = c \<and> in_grid b r c then (sq_at b r c)\<lparr>min_across_word_length := v\<rparr>
      else sq_at b r' c')"
  by (simp add: set_min_def sq_at_sq_put)

lemma letter_set_min [simp]: "letter (sq_at (set_min b r c v) r' c') = letter (sq_at b r' c')"
  by (simp add: sq_at_set_min)

lemma in_grid_set_letter [simp]: "in_grid (set_letter b r c ch) r' c' = in_grid b r' c'"
  by (simp add: set_letter_def)

lemma sq_at_set_letter:
  "sq_at (set_letter b r c ch) r' c' =
     (if r' = r \<and> c' = c \<and> in_grid b r c then (sq_at b r c)\<lparr>letter := ch\<rparr> else sq_at b r' c')"
  by (simp add: set_letter_def sq_at_sq_put)

lemma length_read_board_data [simp]: "length (read_board_data ls) = length ls"
  by (simp add: read_board_data_def)

lemma read_board_data_row:
  "i < length ls \<Longrightarrow>
   read_board_data ls ! i = map (\<lambda>(j, ch). square_of_char (int i) (int j) ch) (enumerate 0 (ls ! i))"
  by (simp add: read_board_data_def nth_enumerate_eq)

lemma in_grid_read_board_data:
  "in_grid (read_board_data ls) r c \<longleftrightarrow>
     0 \<le> r \<and> r < int (length ls) \<and> 0 \<le> c \<and> c < int (length (ls ! nat r))"
  by (auto simp: in_grid_def read_board_data_row)

lemma sq_at_read_board_data:
  "sq_at (read_board_data ls) r c =
     (if 0 \<le> r \<and> r < int (length ls) \<and> 0 \<le> c \<and> c < int (length (ls ! nat r))
      then square_of_char r c (ls ! nat r ! nat c) else off_board)"
  by (auto simp: sq_at_def in_grid_read_board_data read_board_data_row nth_enumerate_eq)

lemma letter_read_board_data [simp]: "letter (sq_at (read_board_data ls) r c) = CHR ''.''"
  by (simp add: sq_at_read_board_data square_of_char_def off_board_def)

lemma length_scrabble_layout [simp]: "length scrabble_layout = 17"
  by (simp add: scrabble_layout_def)

lemma length_scrabble_layout_row:
  "0 \<le> r \<Longrightarrow> r < 17 \<Longrightarrow> length (scrabble_layout ! nat r) = 17"
proof -
  assume "0 \<le> r" "r < 17"
  then have "nat r \<in> {..<17}" by auto
  then show ?thesis
    unfolding scrabble_layout_def lessThan_nat_numeral lessThan_Suc
    by (auto simp: nth_Cons')
qed

lemma in_grid_start_board [simp]:
  "in_grid start_board r c \<longleftrightarrow> 0 \<le> r \<and> r < 17 \<and> 0 \<le> c \<and> c < 17"
  by (auto simp: start_board_def in_grid_read_board_data length_scrabble_layout_row)

lemma letter_start_board [simp]: "letter (sq_at start_board r c) = CHR ''.''"
  by (simp add: start_board_def)

section \<open>Minimum across word length: what each square gets\<close>

lemma min_across_cell_eq:
  "min_across_cell r c (b, m) = (set_min b r c (cell_min b r c m), mwl_next b r c m)"
  by (simp add: cell_min_def mwl_next_def)

lemma cell_min_cong: "same_letters b b' \<Longrightarrow> cell_min b' r c m = cell_min b r c m"
  by (simp add: same_letters_def cell_min_def)

lemma mwl_next_cong: "same_letters b b' \<Longrightarrow> mwl_next b' r c m = mwl_next b r c m"
  by (simp add: same_letters_def mwl_next_def)

lemma row_min_at_cong:
  "same_letters b b' \<Longrightarrow> row_min_at b' r cs m c d = row_min_at b r cs m c d"
  by (induction cs arbitrary: m d) (simp_all add: cell_min_cong mwl_next_cong)

lemma same_letters_set_min: "same_letters b (set_min b r c v)"
  by (simp add: same_letters_def)

lemma fold_min_across_cell:
  "fold (min_across_cell r) cs (b, m) = (b', m') \<Longrightarrow>
     (\<forall>r' c'. in_grid b' r' c' = in_grid b r' c') \<and>
     (\<forall>r' c'. sq_at b' r' c' =
        (if r' = r \<and> in_grid b r c'
         then (sq_at b r c')\<lparr>min_across_word_length :=
                 row_min_at b r cs m c' (min_across_word_length (sq_at b r c'))\<rparr>
         else sq_at b r' c'))"
proof (induction cs arbitrary: b m)
  case Nil
  then show ?case by auto
next
  case (Cons x xs)
  let ?b1 = "set_min b r x (cell_min b r x m)"
  from Cons.prems have f: "fold (min_across_cell r) xs (?b1, mwl_next b r x m) = (b', m')"
    by (simp add: min_across_cell_eq del: min_across_cell.simps)
  have sl: "same_letters b ?b1" by (rule same_letters_set_min)
  from Cons.IH [OF f] show ?case
    by (auto simp: row_min_at_cong [OF sl] sq_at_set_min)
qed

lemma min_across_row_at:
  "sq_at (min_across_row r b) r' c' =
     (if r' = r \<and> in_grid b r c'
      then (sq_at b r c')\<lparr>min_across_word_length :=
              row_min_at b r (rev [1..NUM_BOARD_COLS]) (- 1) c' (min_across_word_length (sq_at b r c'))\<rparr>
      else sq_at b r' c')"
  and in_grid_min_across_row [simp]: "in_grid (min_across_row r b) r' c' = in_grid b r' c'"
  using fold_min_across_cell [of r "rev [1..NUM_BOARD_COLS]" b "- 1"]
  by (auto simp: min_across_row_def prod_eq_iff)

lemma same_letters_min_across_row: "same_letters b (min_across_row r b)"
  by (simp add: same_letters_def min_across_row_at)

lemma fold_min_across_row:
  "distinct rs \<Longrightarrow>
   sq_at (fold min_across_row rs b) r c =
     (if r \<in> set rs \<and> in_grid b r c
      then (sq_at b r c)\<lparr>min_across_word_length :=
              row_min_at b r (rev [1..NUM_BOARD_COLS]) (- 1) c (min_across_word_length (sq_at b r c))\<rparr>
      else sq_at b r c)"
proof (induction rs arbitrary: b)
  case Nil
  then show ?case by simp
next
  case (Cons x xs)
  have sl: "same_letters b (min_across_row x b)" by (rule same_letters_min_across_row)
  from Cons show ?case
    by (auto simp: row_min_at_cong [OF sl] min_across_row_at)
qed

lemma in_grid_fold_min_across_row [simp]:
  "in_grid (fold min_across_row rs b) r c = in_grid b r c"
  by (induction rs arbitrary: b) simp_all

lemma in_grid_update_min [simp]: "in_grid (update_min_across_word_length b) r c = in_grid b r c"
  by (simp add: update_min_across_word_length_def)

lemma sq_at_update_min:
  "sq_at (update_min_across_word_length b) r c =
     (if 1 \<le> r \<and> r \<le> NUM_BOARD_ROWS \<and> in_grid b r c
      then (sq_at b r c)\<lparr>min_across_word_length :=
              row_min_at b r (rev [1..NUM_BOARD_COLS]) (- 1) c (min_across_word_length (sq_at b r c))\<rparr>
      else sq_at b r c)"
  by (simp add: update_min_across_word_length_def fold_min_across_row)

lemma row_min_at_left_tile:
  "letter (sq_at b r (c - 1)) \<noteq> CHR ''.'' \<Longrightarrow> c \<in> set cs \<or> d = - 1 \<Longrightarrow>
   row_min_at b r cs m c d = - 1"
  by (induction cs arbitrary: m d) (auto simp: cell_min_def)

lemma row_min_at_touching:
  "letter (sq_at b r (c - 1)) = CHR ''.'' \<Longrightarrow>
   letter (sq_at b (r - 1) c) \<noteq> CHR ''.'' \<or> letter (sq_at b (r + 1) c) \<noteq> CHR ''.'' \<or>
   letter (sq_at b r (c + 1)) \<noteq> CHR ''.'' \<or> letter (sq_at b r c) \<noteq> CHR ''.'' \<Longrightarrow>
   c \<in> set cs \<or> d = 1 \<Longrightarrow> row_min_at b r cs m c d = 1"
  by (induction cs arbitrary: m d) (auto simp: cell_min_def)

text \<open>
  C2 (as amended). In \<open>update_min_across_word_length\<close>, every playable square whose left
  neighbour holds a tile, that is every square immediately right of an occupied square, gets
  the minimum length \<open>-1\<close>; and every playable square immediately left of an occupied square,
  whose own left neighbour is empty, gets the minimum length 1.
\<close>

theorem update_min_right_of_tile:
  assumes "in_grid board r c" "1 \<le> r" "r \<le> NUM_BOARD_ROWS" "1 \<le> c" "c \<le> NUM_BOARD_COLS"
  shows "(letter (sq_at board r (c - 1)) \<noteq> CHR ''.'' \<longrightarrow>
          min_across_word_length (sq_at (update_min_across_word_length board) r c) = - 1) \<and>
         (letter (sq_at board r (c + 1)) \<noteq> CHR ''.'' \<and>
          letter (sq_at board r (c - 1)) = CHR ''.'' \<longrightarrow>
          min_across_word_length (sq_at (update_min_across_word_length board) r c) = 1)"
  using assms by (simp add: sq_at_update_min row_min_at_left_tile row_min_at_touching)

text \<open>
  With a single tile at row 8, column 8, the square at column 9 gets \<open>-1\<close> and the square at
  column 7 gets 1.
\<close>

theorem update_min_right_of_tile_witness:
  "min_across_word_length
     (sq_at (update_min_across_word_length (set_letter start_board 8 8 (CHR ''A''))) 8 9) = - 1 \<and>
   min_across_word_length
     (sq_at (update_min_across_word_length (set_letter start_board 8 8 (CHR ''A''))) 8 7) = 1"
  using update_min_right_of_tile [of "set_letter start_board 8 8 (CHR ''A'')" 8 9]
    update_min_right_of_tile [of "set_letter start_board 8 8 (CHR ''A'')" 8 7]
  by (simp add: NUM_BOARD_ROWS_def NUM_BOARD_COLS_def sq_at_set_letter)

text \<open>
  C2 as stated fails: with a single tile at row 8, column 8, the square at column 7 is
  immediately left of an occupied square and gets the minimum length 1, not \<open>-1\<close>.
\<close>

theorem update_min_left_of_tile_counterexample:
  "letter (sq_at (set_letter start_board 8 8 (CHR ''A'')) 8 (7 + 1)) \<noteq> CHR ''.'' \<and>
   min_across_word_length
     (sq_at (update_min_across_word_length (set_letter start_board 8 8 (CHR ''A''))) 8 7) = 1"
proof -
  have cols: "(7::int) \<in> set (rev [1..NUM_BOARD_COLS])"
    by (simp add: NUM_BOARD_COLS_def)
  show ?thesis
    by (simp add: sq_at_update_min NUM_BOARD_ROWS_def sq_at_set_letter
          row_min_at_touching [OF _ _ disjI1 [OF cols]])
qed

section \<open>Scoring: the word bonuses\<close>

text \<open>The arithmetic of 32-bit \<open>int\<close>s.\<close>

lemma int32_id: "is_int32 n \<Longrightarrow> int32 n = n"
  by (simp add: int32_def is_int32_def)

lemma int32_0 [simp]: "int32 0 = 0"
  by (simp add: int32_def)

lemma is_int32_int32 [simp]: "is_int32 (int32 n)"
  by (simp add: int32_def is_int32_def)

lemma int32_add_left [simp]: "int32 (int32 a + b) = int32 (a + b)"
  by (simp add: int32_def mod_simps ac_simps)

lemma int32_add_right [simp]: "int32 (a + int32 b) = int32 (a + b)"
  by (simp add: int32_def mod_simps ac_simps)

lemma int32_mult_left [simp]: "int32 (int32 a * b) = int32 (a * b)"
proof -
  have "(((a + 2147483648) mod 4294967296 - 2147483648) * b + 2147483648) mod 4294967296
      = ((a + 2147483648 - 2147483648) * b + 2147483648) mod 4294967296"
  proof -
    have "(((a + 2147483648) mod 4294967296 - 2147483648) * b) mod 4294967296
        = ((a + 2147483648 - 2147483648) * b) mod 4294967296"
      by (rule mod_mult_cong [OF _ refl]) (simp add: mod_diff_left_eq)
    then show ?thesis by (rule mod_add_cong) simp
  qed
  then show ?thesis by (simp add: int32_def)
qed

lemma int32_mult_right [simp]: "int32 (a * int32 b) = int32 (a * b)"
  using int32_mult_left [of b a] by (simp add: mult.commute)

lemma int32_int32 [simp]: "int32 (int32 a) = int32 a"
  using int32_id is_int32_int32 by blast

lemma word_bonus_loop_0 [simp]: "n \<le> 0 \<Longrightarrow> word_bonus_loop k n p = p"
  by (simp add: word_bonus_loop_def)

lemma word_bonus_loop_power: "0 < n \<Longrightarrow> word_bonus_loop k n p = int32 (p * k ^ nat n)"
proof (induction "nat n" arbitrary: n)
  case 0
  then show ?case by simp
next
  case (Suc m)
  then have n: "1 \<le> n" "m = nat (n - 1)" by auto
  then have u: "[1..n] = [1..n - 1] @ [n]" by (simp add: upto_rec2)
  from n have s: "nat n = Suc (nat (n - 1))" by simp
  show ?case
  proof (cases "n = 1")
    case True
    then show ?thesis by (simp add: word_bonus_loop_def)
  next
    case False
    with n have "0 < n - 1" by simp
    from Suc(1) [OF n(2) this] show ?thesis
      using u s by (simp add: word_bonus_loop_def ac_simps)
  qed
qed

lemma word_bonus_loop_int32:
  "is_int32 p \<Longrightarrow> word_bonus_loop k n p = int32 (p * k ^ nat n)"
  by (cases "0 < n") (simp_all add: word_bonus_loop_power int32_id)

lemma is_int32_add_upper_points:
  "is_int32 p \<Longrightarrow> is_int32 (add_upper_points t ch p)"
  by (simp add: add_upper_points_def)

lemma is_int32_row_pts_left: "is_int32 p \<Longrightarrow> is_int32 (row_pts_left t b r c p)"
  by (induction t b r c p rule: row_pts_left.induct)
     (subst row_pts_left.simps, simp add: is_int32_add_upper_points)

lemma is_int32_row_pts_between: "is_int32 p \<Longrightarrow> is_int32 (row_pts_between t b r c l p)"
  by (induction t b r c l p rule: row_pts_between.induct)
     (subst row_pts_between.simps, simp add: is_int32_add_upper_points)

lemma is_int32_row_pts_right: "is_int32 p \<Longrightarrow> is_int32 (row_pts_right t b r c p)"
  by (induction t b r c p rule: row_pts_right.induct)
     (subst row_pts_right.simps, simp add: is_int32_add_upper_points)

lemma is_int32_0 [simp]: "is_int32 0"
  by (simp add: is_int32_def)

lemma fold_move_square_step_counts:
  "fold (move_square_step t b) mv (rp, tc, nd, nt) = (rp', tc', nd', nt') \<Longrightarrow>
   0 \<le> nd \<Longrightarrow> 0 \<le> nt \<Longrightarrow> nd + int (length mv) < 2147483648 \<Longrightarrow>
   nt + int (length mv) < 2147483648 \<Longrightarrow> is_int32 rp \<Longrightarrow> is_int32 tc \<Longrightarrow>
     nd' = nd + int (num_cells double_word b mv) \<and> nt' = nt + int (num_cells triple_word b mv) \<and>
     is_int32 rp' \<and> is_int32 tc'"
proof (induction mv arbitrary: rp tc nd nt)
  case Nil
  then show ?case by (simp add: num_cells_def)
next
  case (Cons s mv)
  obtain rp1 tc1 nd1 nt1 where st: "move_square_step t b s (rp, tc, nd, nt) = (rp1, tc1, nd1, nt1)"
    by (metis prod_cases4)
  from Cons.prems have "is_int32 (nd + 1)" "is_int32 (nt + 1)"
    by (simp_all add: is_int32_def)
  then have w: "int32 (nd + 1) = nd + 1" "int32 (nt + 1) = nt + 1"
    by (simp_all add: int32_id)
  from st w have n1: "nd1 = nd + (if type (sq_at b (row s) (col s)) = double_word then 1 else 0)"
    and n2: "nt1 = nt + (if type (sq_at b (row s) (col s)) = triple_word then 1 else 0)"
    by (auto simp: Let_def split: if_splits)
  from st have r: "is_int32 rp1" "is_int32 tc1"
    by (auto simp: Let_def split: if_splits)
  from Cons.prems st have f: "fold (move_square_step t b) mv (rp1, tc1, nd1, nt1) = (rp', tc', nd', nt')"
    by simp
  from Cons.prems n1 n2 have b: "0 \<le> nd1" "0 \<le> nt1" "nd1 + int (length mv) < 2147483648"
    "nt1 + int (length mv) < 2147483648" by auto
  from Cons.IH [OF f b r] n1 n2 show ?case by (auto simp: num_cells_def)
qed

lemma is_int32_row_pts_before_bonus:
  "length mv < 2147483648 \<Longrightarrow> is_int32 (row_pts_before_bonus t b mv)"
proof -
  assume l: "length mv < 2147483648"
  obtain rp tc nd nt where
    f: "fold (move_square_step t b) mv (0, 0, 0, 0) = (rp, tc, nd, nt)"
    by (metis prod_cases4)
  from fold_move_square_step_counts [OF f] l have "is_int32 rp" by simp
  then show ?thesis
    by (simp add: row_pts_before_bonus_def Let_def f is_int32_row_pts_left
          is_int32_row_pts_between is_int32_row_pts_right)
qed

text \<open>
  C5. \<open>calc_across_pts\<close> compounds the word bonuses of the primary word: with \<open>d\<close>
  double-word and \<open>t\<close> triple-word squares under the new tiles, the row points counted
  before the bonuses are multiplied by \<open>2^d * 3^t\<close>, then the cross points and the 50 points
  for seven tiles are added. One double-word and one triple-word square multiply by 6. The
  result is the 32-bit \<open>int\<close> of that value, and the value itself if it is in the range of
  a 32-bit \<open>int\<close>. The move has fewer than \<open>2^31 - 1\<close> squares, so that the counters of the
  bonus squares and of the two loops do not overflow.
\<close>

theorem calc_across_pts_bonus_compounded:
  assumes "across_move \<noteq> []" and "length across_move < 2147483647"
  shows "calc_across_pts global_tiles board across_move =
           int32 (row_pts_before_bonus global_tiles board across_move *
                    (2 ^ num_cells double_word board across_move *
                     3 ^ num_cells triple_word board across_move) +
                  total_cross_pts global_tiles board across_move +
                  (if 7 \<le> length across_move then 50 else 0)) \<and>
         (num_cells double_word board across_move = 1 \<and>
          num_cells triple_word board across_move = 1 \<longrightarrow>
          calc_across_pts global_tiles board across_move =
            int32 (row_pts_before_bonus global_tiles board across_move * 6 +
                   total_cross_pts global_tiles board across_move +
                   (if 7 \<le> length across_move then 50 else 0))) \<and>
         (is_int32 (row_pts_before_bonus global_tiles board across_move *
                      (2 ^ num_cells double_word board across_move *
                       3 ^ num_cells triple_word board across_move) +
                    total_cross_pts global_tiles board across_move +
                    (if 7 \<le> length across_move then 50 else 0)) \<longrightarrow>
          calc_across_pts global_tiles board across_move =
            row_pts_before_bonus global_tiles board across_move *
              (2 ^ num_cells double_word board across_move *
               3 ^ num_cells triple_word board across_move) +
            total_cross_pts global_tiles board across_move +
            (if 7 \<le> length across_move then 50 else 0))"
proof -
  obtain rp tc nd nt where
    f: "fold (move_square_step global_tiles board) across_move (0, 0, 0, 0) = (rp, tc, nd, nt)"
    by (metis prod_cases4)
  from fold_move_square_step_counts [OF f] assms(2)
  have c: "nd = int (num_cells double_word board across_move)"
    "nt = int (num_cells triple_word board across_move)" by auto
  have p: "is_int32 (row_pts_before_bonus global_tiles board across_move)"
    using assms(2) by (simp add: is_int32_row_pts_before_bonus)
  have b: "word_bonus_loop 3 nt (word_bonus_loop 2 nd
             (row_pts_before_bonus global_tiles board across_move)) =
           int32 (row_pts_before_bonus global_tiles board across_move *
                    (2 ^ num_cells double_word board across_move *
                     3 ^ num_cells triple_word board across_move))"
    by (simp add: word_bonus_loop_int32 [OF p] word_bonus_loop_int32 [OF is_int32_int32] c
          mult.assoc)
  have g: "calc_across_pts global_tiles board across_move =
           int32 (row_pts_before_bonus global_tiles board across_move *
                    (2 ^ num_cells double_word board across_move *
                     3 ^ num_cells triple_word board across_move) +
                  total_cross_pts global_tiles board across_move +
                  (if 7 \<le> length across_move then 50 else 0))"
    using assms(1) b
    by (simp add: calc_across_pts_def total_cross_pts_def f Let_def)
  show ?thesis
    unfolding g by (simp add: int32_id)
qed

lemma sq_at_start_board:
  "sq_at start_board r c =
     (if 0 \<le> r \<and> r < 17 \<and> 0 \<le> c \<and> c < 17
      then square_of_char r c (scrabble_layout ! nat r ! nat c) else off_board)"
  by (cases "0 \<le> r \<and> r < 17")
     (auto simp: start_board_def sq_at_read_board_data length_scrabble_layout_row)

lemma type_off_board [simp]: "type off_board = outside"
  by (simp add: off_board_def)

lemma letter_off_board [simp]: "letter off_board = CHR ''.''"
  by (simp add: off_board_def)

lemma type_square_of_char:
  "type (square_of_char r c ch) =
     (if ch = CHR ''W'' then triple_word else if ch = CHR ''w'' then double_word
      else if ch = CHR ''L'' then triple_letter else if ch = CHR ''l'' then double_letter
      else if ch = CHR ''.'' then regular else if ch = CHR ''x'' then outside else undefined)"
  by (simp add: square_of_char_def)

lemma letter_square_of_char [simp]: "letter (square_of_char r c ch) = CHR ''.''"
  by (simp add: square_of_char_def)

lemma letter_set_letter:
  "letter (sq_at (set_letter b r c ch) r' c') =
     (if r' = r \<and> c' = c \<and> in_grid b r c then ch else letter (sq_at b r' c'))"
  by (simp add: sq_at_set_letter)

lemma type_set_letter [simp]: "type (sq_at (set_letter b r c ch) r' c') = type (sq_at b r' c')"
  by (simp add: sq_at_set_letter)

lemma type_start_board:
  "type (sq_at start_board r c) =
     (if 0 \<le> r \<and> r < 17 \<and> 0 \<le> c \<and> c < 17
      then (let ch = scrabble_layout ! nat r ! nat c in
            if ch = CHR ''W'' then triple_word else if ch = CHR ''w'' then double_word
            else if ch = CHR ''L'' then triple_letter else if ch = CHR ''l'' then double_letter
            else if ch = CHR ''.'' then regular else if ch = CHR ''x'' then outside
            else undefined)
      else outside)"
  by (simp add: sq_at_start_board type_square_of_char)

lemmas board_reads =
  letter_set_letter type_start_board scrabble_layout_def Let_def

text \<open>
  PROTESTS along the middle row, with the P on a triple-word and the last S on a double-word
  square: the 10 points of the letters are multiplied by 6.
\<close>

theorem calc_across_pts_bonus_compounded_witness:
  "protests_move \<noteq> [] \<and>
   num_cells double_word protest_board protests_move = 1 \<and>
   num_cells triple_word protest_board protests_move = 1 \<and>
   row_pts_before_bonus scrabble_tiles protest_board protests_move = 10 \<and>
   calc_across_pts scrabble_tiles protest_board protests_move = 10 * 6"
proof -
  have m: "protests_move \<noteq> []"
    by (simp add: protests_move_def add_sqr_to_move_def)
  have d: "num_cells double_word protest_board protests_move = 1"
    by (simp add: num_cells_def protests_move_def add_sqr_to_move_def protest_board_def board_reads)
  have t: "num_cells triple_word protest_board protests_move = 1"
    by (simp add: num_cells_def protests_move_def add_sqr_to_move_def protest_board_def board_reads)
  have c: "total_cross_pts scrabble_tiles protest_board protests_move = 0"
    by (simp add: total_cross_pts_def protests_move_def add_sqr_to_move_def protest_board_def
          board_reads placed_letter_pts_def)
  have r: "row_pts_before_bonus scrabble_tiles protest_board protests_move = 10"
    by (simp add: row_pts_before_bonus_def protests_move_def add_sqr_to_move_def
          protest_board_def board_reads placed_letter_pts_def upper_points_def tile_points_def
          letter_index_def isupper_def scrabble_tiles_def row_pts_left.simps
          row_pts_between.simps row_pts_right.simps add_upper_points_def int32_def)
  have l: "length protests_move = 2"
    by (simp add: protests_move_def add_sqr_to_move_def)
  from calc_across_pts_bonus_compounded [OF m, of scrabble_tiles protest_board] d t c r m l
  show ?thesis by (simp add: int32_def)
qed

section \<open>Cross-checks: what each square gets\<close>

lemma same_tiles_refl [simp]: "same_tiles b b"
  by (simp add: same_tiles_def)

lemma same_tiles_trans: "same_tiles a b \<Longrightarrow> same_tiles b c \<Longrightarrow> same_tiles a c"
  by (simp add: same_tiles_def)

lemma above_fragment_cong:
  "same_tiles b b' \<Longrightarrow> above_fragment b' r c a = above_fragment b r c a"
proof (induction b r c a rule: above_fragment.induct)
  case (1 board check_row c above_square)
  then show ?case
    by (subst above_fragment.simps, subst (2) above_fragment.simps) (simp add: same_tiles_def)
qed

lemma below_fragment_cong:
  "same_tiles b b' \<Longrightarrow> below_fragment b' r c a = below_fragment b r c a"
proof (induction b r c a rule: below_fragment.induct)
  case (1 board check_row c below_square)
  then show ?case
    by (subst below_fragment.simps, subst (2) below_fragment.simps) (simp add: same_tiles_def)
qed

lemma in_grid_set_cross_check [simp]: "in_grid (set_cross_check b r c v) r' c' = in_grid b r' c'"
  by (simp add: set_cross_check_def)

lemma sq_at_set_cross_check:
  "sq_at (set_cross_check b r c v) r' c' =
     (if r' = r \<and> c' = c \<and> in_grid b r c then (sq_at b r c)\<lparr>down_cross_check := v\<rparr>
      else sq_at b r' c')"
  by (simp add: set_cross_check_def sq_at_sq_put)

lemma fold_test_letter_step:
  "in_grid (fold (test_letter_step w a bl r c) ts b) r' c' = in_grid b r' c' \<and>
   sq_at (fold (test_letter_step w a bl r c) ts b) r' c' =
     (if r' = r \<and> c' = c \<and> in_grid b r c
      then (sq_at b r c)\<lparr>down_cross_check :=
              fold (\<lambda>t d. d[nat (t - 65) := (a @ [char_of (nat t)] @ bl \<in> set w)]) ts
                   (down_cross_check (sq_at b r c))\<rparr>
      else sq_at b r' c')"
  by (induction ts arbitrary: b) (auto simp: test_letter_step_def sq_at_set_cross_check)

lemma in_grid_cross_check_cell [simp]:
  "in_grid (cross_check_cell w r c b) r' c' = in_grid b r' c'"
  by (simp add: cross_check_cell_def fold_test_letter_step Let_def del: upto_rec_numeral)

lemma sq_at_cross_check_cell:
  "sq_at (cross_check_cell w r c b) r' c' =
     (if r' = r \<and> c' = c \<and> in_grid b r c then cross_checked w b r c else sq_at b r' c')"
  by (auto simp: cross_check_cell_def cross_checked_def fold_test_letter_step Let_def
        new_cross_check_def simp del: upto_rec_numeral)

lemma same_tiles_cross_check_cell: "same_tiles b (cross_check_cell w r c b)"
  by (simp add: same_tiles_def sq_at_cross_check_cell cross_checked_def)

lemma cross_checked_cong:
  "same_tiles b b' \<Longrightarrow> sq_at b' r c = sq_at b r c \<Longrightarrow> cross_checked w b' r c = cross_checked w b r c"
  by (auto simp: cross_checked_def above_fragment_cong below_fragment_cong)

lemma fold_cross_check_cell:
  "distinct cs \<Longrightarrow>
   sq_at (fold (cross_check_cell w r) cs b) r' c' =
     (if r' = r \<and> c' \<in> set cs \<and> in_grid b r c' then cross_checked w b r c' else sq_at b r' c')"
proof (induction cs arbitrary: b)
  case Nil
  then show ?case by simp
next
  case (Cons x xs)
  have st: "same_tiles b (cross_check_cell w r x b)" by (rule same_tiles_cross_check_cell)
  have "c' \<noteq> x \<Longrightarrow> cross_checked w (cross_check_cell w r x b) r c' = cross_checked w b r c'"
    by (rule cross_checked_cong [OF st]) (simp add: sq_at_cross_check_cell)
  with Cons show ?case
    by (auto simp: sq_at_cross_check_cell)
qed

lemma in_grid_fold_cross_check_cell [simp]:
  "in_grid (fold (cross_check_cell w r) cs b) r' c' = in_grid b r' c'"
  by (induction cs arbitrary: b) simp_all

lemma same_tiles_fold_cross_check_cell: "same_tiles b (fold (cross_check_cell w r) cs b)"
proof (induction cs arbitrary: b)
  case Nil
  then show ?case by simp
next
  case (Cons x xs)
  show ?case
    using same_tiles_trans [OF same_tiles_cross_check_cell Cons] by simp
qed

lemma fold_cross_check_rows:
  "distinct rs \<Longrightarrow> distinct cs \<Longrightarrow>
   sq_at (fold (\<lambda>r. fold (cross_check_cell w r) cs) rs b) r' c' =
     (if r' \<in> set rs \<and> c' \<in> set cs \<and> in_grid b r' c' then cross_checked w b r' c'
      else sq_at b r' c')"
proof (induction rs arbitrary: b)
  case Nil
  then show ?case by simp
next
  case (Cons x xs)
  let ?b1 = "fold (cross_check_cell w x) cs b"
  have st: "same_tiles b ?b1" by (rule same_tiles_fold_cross_check_cell)
  have "r' \<noteq> x \<Longrightarrow> cross_checked w ?b1 r' c' = cross_checked w b r' c'"
    by (rule cross_checked_cong [OF st]) (simp add: fold_cross_check_cell Cons.prems)
  with Cons show ?case
    by (auto simp: fold_cross_check_cell)
qed

lemma in_grid_update_down_cross_checks [simp]:
  "in_grid (update_down_cross_checks w b) r c = in_grid b r c"
proof -
  have "in_grid (fold (\<lambda>r. fold (cross_check_cell w r) cs) rs b) r c = in_grid b r c" for rs cs
    by (induction rs arbitrary: b) simp_all
  then show ?thesis by (simp add: update_down_cross_checks_def)
qed

lemma sq_at_update_down_cross_checks:
  "sq_at (update_down_cross_checks w b) r c =
     (if 1 \<le> r \<and> r \<le> NUM_BOARD_ROWS \<and> 1 \<le> c \<and> c \<le> NUM_BOARD_COLS \<and> in_grid b r c
      then cross_checked w b r c else sq_at b r c)"
  by (simp add: update_down_cross_checks_def fold_cross_check_rows)

lemma letter_update_down_cross_checks [simp]:
  "letter (sq_at (update_down_cross_checks w b) r c) = letter (sq_at b r c)"
  by (simp add: sq_at_update_down_cross_checks cross_checked_def)

lemma type_update_down_cross_checks [simp]:
  "type (sq_at (update_down_cross_checks w b) r c) = type (sq_at b r c)"
  by (simp add: sq_at_update_down_cross_checks cross_checked_def)

section \<open>The search: racks, backtracking and the best move\<close>

lemma rack_restore [simp]: "rack[i := rack[i := rack ! i - 1] ! i + (1::int)] = rack"
  by (cases "i < length rack") (simp_all add: list_update_beyond)

lemma butlast_add_sqr_to_move [simp]: "butlast (add_sqr_to_move r c ch mv) = mv"
  by (simp add: add_sqr_to_move_def)

lemma extend_children_restores:
  "fst (extend_children t b nodes sqr m (rack, cs, mv, best)) = rack \<and>
   fst (snd (snd (extend_children t b nodes sqr m (rack, cs, mv, best)))) = mv"
proof (induction nodes arbitrary: cs best)
  case Nil
  show ?case by (simp add: extend_children.simps)
next
  case (Cons child rest)
  show ?case
    by (simp add: extend_children.simps Let_def Cons)
qed

lemma extend_children_calls_restores:
  "fst (snd (extend_children_calls b nodes sqr (rack, cs, mv))) = rack \<and>
   snd (snd (snd (extend_children_calls b nodes sqr (rack, cs, mv)))) = mv"
proof (induction nodes arbitrary: cs)
  case Nil
  show ?case by (simp add: extend_children_calls.simps)
next
  case (Cons child rest)
  show ?case
    by (simp add: extend_children_calls.simps Let_def Cons)
qed

lemma rack_ok_take: "rack_ok rack \<Longrightarrow> 0 < rack ! i \<Longrightarrow> rack_ok (rack[i := rack ! i - 1])"
  unfolding rack_ok_def using set_update_subset_insert [of rack i "rack ! i - 1"] by auto

lemma extend_children_calls_rack_ok:
  assumes "\<And>child rack cs mv call. child \<in> set nodes \<Longrightarrow> rack_ok rack \<Longrightarrow>
             call \<in> set (extend_right_calls b rack child cs mv) \<Longrightarrow> rack_ok (fst call)"
    and "rack_ok rack"
    and "call \<in> set (fst (extend_children_calls b nodes sqr (rack, cs, mv)))"
  shows "rack_ok (fst call)"
  using assms
proof (induction nodes arbitrary: cs)
  case Nil
  then show ?case by simp
next
  case (Cons child rest)
  have rest: "rack_ok (fst call)"
    if "call \<in> set (fst (extend_children_calls b rest sqr (rack, cs', mv)))" for cs'
  proof (rule Cons.IH [of cs'])
    show "rack_ok (fst call')"
      if "child' \<in> set rest" "rack_ok rack'"
        "call' \<in> set (extend_right_calls b rack' child' cs'' mv')"
      for child' rack' cs'' mv' call'
      using Cons.prems(1) [of child' rack' call' cs'' mv'] that by simp
  qed (use that Cons.prems(2) in simp_all)
  have child: "rack_ok (fst call)"
    if "rack_ok rack'" "call \<in> set (extend_right_calls b rack' child cs' mv')" for rack' cs' mv'
    using Cons.prems(1) [of child rack' call cs' mv'] that by simp
  show ?case
    using Cons.prems(2,3) by (auto simp: Let_def split: if_splits intro: rest child rack_ok_take)
qed

lemma extend_right_calls_rack_ok:
  "rack_ok rack \<Longrightarrow> call \<in> set (extend_right_calls b rack node cs mv) \<Longrightarrow> rack_ok (fst call)"
proof (induction node arbitrary: rack cs mv call)
  case (TrieNode l t nodes li)
  have loop: "rack_ok (fst call)"
    if "call \<in> set (fst (extend_children_calls b nodes sqr (rack, cs, mv)))" for sqr
    using extend_children_calls_rack_ok [of nodes b rack call sqr cs mv] TrieNode.IH
      TrieNode.prems(1) that by blast
  have nth: "rack_ok (fst call)"
    if "i < length nodes" "call \<in> set (extend_right_calls b rack (nodes ! i) cs' mv)" for i cs'
    using TrieNode.IH [of "nodes ! i" rack call cs' mv] TrieNode.prems that by simp
  from TrieNode.prems(2) show ?case
    by (subst (asm) extend_right_calls.simps)
       (auto simp: Let_def TrieNode.prems(1) split: if_splits intro: loop nth)
qed

lemma completed_simps [simp]:
  "completed b m [] = []"
  "completed b m (xs @ ys) = completed b m xs @ completed b m ys"
  "completed b m (call # xs) =
     (if complete_call b m call then snd (snd (snd call)) # completed b m xs else completed b m xs)"
  by (simp_all add: completed_def)

lemma extend_children_best:
  assumes "\<And>child rack cs mv best. child \<in> set nodes \<Longrightarrow>
             extend_right t b rack child cs m mv best =
               fold (keep_better t b) (complete_moves b rack child cs m mv) best"
  shows "snd (snd (snd (extend_children t b nodes sqr m (rack, cs, mv, best)))) =
           fold (keep_better t b)
             (completed b m (fst (extend_children_calls b nodes sqr (rack, cs, mv)))) best"
  using assms
proof (induction nodes arbitrary: cs best)
  case Nil
  show ?case by simp
next
  case (Cons child rest)
  have rest: "snd (snd (snd (extend_children t b rest sqr m (rack, cs', mv, best')))) =
           fold (keep_better t b)
             (completed b m (fst (extend_children_calls b rest sqr (rack, cs', mv)))) best'"
    for cs' best'
    by (rule Cons.IH) (simp add: Cons.prems)
  have child: "extend_right t b rack' child cs' m mv' best' =
               fold (keep_better t b) (complete_moves b rack' child cs' m mv') best'"
    for rack' cs' mv' best'
    by (rule Cons.prems) simp
  show ?case
    by (simp add: Let_def rest child complete_moves_def)
qed

lemma extend_right_best:
  "extend_right t b rack node cs m mv best =
     fold (keep_better t b) (complete_moves b rack node cs m mv) best"
proof (induction node arbitrary: rack cs mv best)
  case (TrieNode l tm nodes li)
  have loop: "snd (snd (snd (extend_children t b nodes sqr m (rack, cs, mv, best')))) =
           fold (keep_better t b)
             (completed b m (fst (extend_children_calls b nodes sqr (rack, cs, mv)))) best'"
    for sqr best'
    by (rule extend_children_best) (simp add: TrieNode.IH)
  have nth: "i < length nodes \<Longrightarrow> extend_right t b rack (nodes ! i) cs' m mv best =
               fold (keep_better t b) (complete_moves b rack (nodes ! i) cs' m mv) best" for i cs'
    by (rule TrieNode.IH) simp
  show ?case
    unfolding complete_moves_def
    by (subst extend_right.simps, subst extend_right_calls.simps)
       (simp add: Let_def loop nth [unfolded complete_moves_def] complete_call_def keep_better_def)
qed

lemma extend_children_try_child:
  "snd (snd (snd (extend_children t b nodes sqr m (rack, cs, mv, best)))) =
     fold (try_child t b rack sqr m mv) nodes best"
  by (induction nodes arbitrary: cs best) (simp_all add: Let_def try_child_def)

lemma trie_letter_insert_into_trie [simp]:
  "trie_letter (insert_into_trie node w) = trie_letter node"
  by (cases node; cases w) (simp_all add: Let_def)

lemma map_update_same_letter:
  "map trie_letter (cs[i := insert_into_trie (cs ! i) w]) = map trie_letter cs"
  by (cases "i < length cs") (simp_all add: map_update list_update_same_conv list_update_beyond)

lemma children_insert_into_trie:
  "map trie_letter (children (insert_into_trie node (ch # word))) =
     map trie_letter (children node) @
       (if letter_indexes node ! nat (letter_index ch) = - 1 then [ch] else [])"
  by (cases node) (simp add: Let_def map_update_same_letter new_node_def)

text \<open>
  C4 (as amended). The search keeps one best complete move: its result is the fold of
  \<open>keep_better\<close>, which replaces the best move only by one that scores strictly more, over
  the complete moves in the order of the search; so of two moves with the same score the
  one found first stays. On an empty playable square the search first scores the current
  move if it is complete and then goes through the children of the trie node in the order
  of the children vector, with at most one branch for each child (\<open>try_child\<close>): the letter
  from the rack if the rack has it and the cross-check set of the square allows it;
  otherwise a blank if the rack has one and the cross-check set allows the letter; otherwise
  none. The order of the children vector is the order of insertion, not the alphabet:
  \<open>insert_into_trie\<close> adds the first letter of a word at the end of the letters of the
  children if the node has no child index for it yet, and else leaves the letters of the
  children as they are.
\<close>

theorem extend_right_search_order:
  "extend_right global_tiles board rack node curr_square min_word_length curr_move best =
     fold (keep_better global_tiles board)
       (complete_moves board rack node curr_square min_word_length curr_move) best \<and>
   (type (sq_at board (row curr_square) (col curr_square)) \<noteq> outside \<and>
    letter (sq_at board (row curr_square) (col curr_square)) = CHR ''.'' \<longrightarrow>
    extend_right global_tiles board rack node curr_square min_word_length curr_move best =
      fold (try_child global_tiles board rack
              (sq_at board (row curr_square) (col curr_square)) min_word_length curr_move)
        (children node)
        (if is_terminal_node node \<and> to_unsigned min_word_length \<le> int (length curr_move)
         then keep_better global_tiles board curr_move best else best)) \<and>
   map trie_letter (children (insert_into_trie node (ch # word))) =
     map trie_letter (children node) @
       (if letter_indexes node ! nat (letter_index ch) = - 1 then [ch] else [])"
proof -
  have "extend_right global_tiles board rack node curr_square min_word_length curr_move best =
      fold (try_child global_tiles board rack
              (sq_at board (row curr_square) (col curr_square)) min_word_length curr_move)
        (children node)
        (if is_terminal_node node \<and> to_unsigned min_word_length \<le> int (length curr_move)
         then keep_better global_tiles board curr_move best else best)"
    if "type (sq_at board (row curr_square) (col curr_square)) \<noteq> outside"
      "letter (sq_at board (row curr_square) (col curr_square)) = CHR ''.''"
    using that
    by (subst extend_right.simps)
       (simp add: Let_def extend_children_try_child keep_better_def)
  then show ?thesis
    using extend_right_best children_insert_into_trie by blast
qed

text \<open>
  C9. From a rack without negative counts, every call of \<open>extend_right\<close> in the call tree
  gets a rack without negative counts; and the loop over the children leaves the rack and
  the current move as it found them, whatever the calls it made returned.
\<close>

theorem extend_right_rack_and_move_restored:
  assumes "rack_ok rack"
  shows "(\<forall>call \<in> set (extend_right_calls board rack node curr_square curr_move).
            rack_ok (fst call)) \<and>
         fst (extend_children global_tiles board nodes sqr min_word_length
                (loop_rack, loop_square, loop_move, best)) = loop_rack \<and>
         fst (snd (snd (extend_children global_tiles board nodes sqr min_word_length
                (loop_rack, loop_square, loop_move, best)))) = loop_move"
  using assms extend_right_calls_rack_ok extend_children_restores by blast

section \<open>The best move\<close>

lemma fold_concat_map: "fold f (concat (map g xs)) s = fold (\<lambda>x. fold f (g x)) xs s"
  by (induction xs arbitrary: s) simp_all

lemma try_square_best:
  "try_square t root b rack r c best = fold (keep_better t b) (cell_candidates root b rack r c) best"
  by (simp add: try_square_def cell_candidates_def Let_def extend_right_best)

lemma find_best_across_move_best:
  "find_best_across_move t root b rack =
     fst (fold (keep_better t b) (across_candidates root b rack) ([], 0))"
proof -
  have "(\<lambda>r. fold (try_square t root b rack r) cs) =
        (\<lambda>r. fold (keep_better t b) (concat (map (cell_candidates root b rack r) cs)))" for cs
    by (rule ext)+ (simp add: fold_concat_map try_square_best [abs_def])
  then show ?thesis
    by (simp add: find_best_across_move_def across_candidates_def row_candidates_def [abs_def]
          fold_concat_map)
qed

lemma invert_move_Nil [simp]: "invert_move [] = []"
  by (simp add: invert_move_def)

lemma calc_across_pts_Nil [simp]: "calc_across_pts t b [] = 0"
  by (simp add: calc_across_pts_def)



text \<open>
  C3 (as amended). On a board with a tile, \<open>find_best_move\<close> returns the best across move
  with its points if they are strictly more than the points of the best down move, and the
  best down move with its points otherwise: when the two scores are equal it returns the
  down (vertical) move.
\<close>

theorem find_best_move_across_or_down:
  assumes "has_tile board"
  shows "find_best_move global_words global_tiles global_trie_root board rack best =
           (let best_across_move = find_best_across_move global_tiles global_trie_root board rack;
                best_down_move = find_best_down_move global_words global_tiles global_trie_root
                                   board rack;
                best_across_pts = calc_across_pts global_tiles board best_across_move;
                best_down_pts = calc_down_pts global_words global_tiles board best_down_move
            in if best_across_pts > best_down_pts then (best_across_move, best_across_pts)
               else if best_across_pts < best_down_pts then (best_down_move, best_down_pts)
               else (best_down_move, best_down_pts))"
  using assms by (simp add: find_best_move_def Let_def)

lemma in_grid_set_first_move_min [simp]:
  "in_grid (set_first_move_min b c) r' c' = in_grid b r' c'"
  by (simp add: set_first_move_min_def Let_def)

lemma min_set_first_move_min:
  "in_grid b mid_row c \<Longrightarrow>
   min_across_word_length (sq_at (set_first_move_min b c) mid_row c) =
     (if c = mid_col then 2 else mid_col - c + 1)"
  by (auto simp: set_first_move_min_def Let_def sq_at_set_min)

lemma first_move_step_call:
  assumes "in_grid b mid_row c" "1 \<le> c" "c \<le> mid_col"
  shows "first_move_step t root rack c (b, best) = first_move_call t root rack c (b, best)"
proof -
  have "mid_col = 8" by (simp add: mid_col_def NUM_BOARD_COLS_def)
  with assms show ?thesis
    by (auto simp: first_move_call_def Let_def min_set_first_move_min NUM_RACK_TILES_def)
qed

lemma fold_first_move_step_call:
  "\<forall>c \<in> set cs. in_grid b mid_row c \<and> 1 \<le> c \<and> c \<le> mid_col \<Longrightarrow>
   fold (first_move_step t root rack) cs (b, best) = fold (first_move_call t root rack) cs (b, best)"
proof (induction cs arbitrary: b best)
  case Nil
  show ?case by simp
next
  case (Cons c cs)
  have "first_move_step t root rack c (b, best) = first_move_call t root rack c (b, best)"
    using Cons.prems by (intro first_move_step_call) simp_all
  moreover obtain b2 best2 where s: "first_move_call t root rack c (b, best) = (b2, best2)"
    by (metis prod.exhaust)
  moreover from s have "b2 = set_first_move_min b c"
    by (simp add: first_move_call_def Let_def)
  then have "fold (first_move_step t root rack) cs (b2, best2) =
             fold (first_move_call t root rack) cs (b2, best2)"
    using Cons.prems by (intro Cons.IH) simp
  ultimately show ?case by (simp del: first_move_step.simps)
qed

text \<open>
  C6 (as amended). On a board without tiles, \<open>find_best_move\<close> goes through the squares of the
  middle row from column 1 to the middle column. It gives each the minimum length
  \<open>mid_col - c + 1\<close>, the number of squares from it to the middle square inclusive (its
  distance to the middle square plus one), and the middle square itself 2. It calls
  \<open>extend_right\<close> only from these squares, with that minimum length, and only from column 2
  on: the length 8 of column 1 is more than the 7 tiles of a rack.
\<close>

theorem find_best_move_first_move:
  assumes "\<not> has_tile board" and "\<forall>c \<in> set [1..mid_col]. in_grid board mid_row c"
  shows "find_best_move global_words global_tiles global_trie_root board rack best =
           snd (fold (first_move_call global_tiles global_trie_root rack) [1..mid_col]
                     (board, best)) \<and>
         (\<forall>c \<in> set [1..mid_col].
            min_across_word_length (sq_at (set_first_move_min board c) mid_row c) =
              (if c = mid_col then 2 else mid_col - c + 1))"
  using assms
  by (simp add: find_best_move_def fold_first_move_step_call min_set_first_move_min)

section \<open>The search: where a recorded move ends\<close>

lemma word_end_run:
  "c0 \<le> c1 \<Longrightarrow> \<forall>c. c0 \<le> c \<and> c < c1 \<longrightarrow> occupied b r c \<Longrightarrow> \<not> occupied b r c1 \<Longrightarrow>
   word_end b r c0 = c1"
proof (induction "nat (c1 - c0)" arbitrary: c0)
  case 0
  then have "c0 = c1" by simp
  with 0 show ?case by (subst word_end.simps) simp
next
  case (Suc n)
  then have "occupied b r c0" "c0 + 1 \<le> c1" "n = nat (c1 - (c0 + 1))" by auto
  moreover from Suc.prems have "\<forall>c. c0 + 1 \<le> c \<and> c < c1 \<longrightarrow> occupied b r c" by auto
  ultimately show ?case
    using Suc.hyps(1) [of "c0 + 1"] Suc.prems(3) by (subst word_end.simps) simp
qed

lemma board_ok_cells:
  assumes "board_ok b" "0 \<le> r" "r \<le> 16" "0 \<le> c" "c \<le> 16"
  shows "row (sq_at b r c) = r" "col (sq_at b r c) = c"
    "(type (sq_at b r c) = outside) = (r = 0 \<or> r = 16 \<or> c = 0 \<or> c = 16)"
  using assms unfolding board_ok_def list_all_iff by auto

lemma board_ok_in_grid:
  assumes "board_ok b"
  shows "in_grid b r c \<longleftrightarrow> 0 \<le> r \<and> r \<le> 16 \<and> 0 \<le> c \<and> c \<le> 16"
  using assms unfolding board_ok_def list_all_iff in_grid_def by auto

lemma board_ok_playable:
  assumes "board_ok b" "type (sq_at b r c) \<noteq> outside"
  shows "1 \<le> r \<and> r \<le> 15 \<and> 1 \<le> c \<and> c \<le> 15"
proof -
  from assms(2) have "in_grid b r c" by (rule outside_in_grid)
  with assms(1) have "0 \<le> r \<and> r \<le> 16 \<and> 0 \<le> c \<and> c \<le> 16"
    by (simp add: board_ok_in_grid)
  with board_ok_cells(3) [OF assms(1), of r c] assms(2) show ?thesis by auto
qed

lemma run_ok_complete:
  assumes "run_ok b cs mv" "mv \<noteq> []"
    and "type (sq_at b (row cs) (col cs)) \<noteq> outside" "letter (sq_at b (row cs) (col cs)) = CHR ''.''"
  shows "ends_before_empty b mv"
proof -
  from assms(1,2) have r: "row (last mv) = row cs" and "col (last mv) + 1 \<le> col cs"
    and "\<forall>c. col (last mv) + 1 \<le> c \<and> c < col cs \<longrightarrow> occupied b (row cs) c"
    by (auto simp: run_ok_def)
  moreover from assms(4) have "\<not> occupied b (row cs) (col cs)"
    by (simp add: occupied_def)
  ultimately have "word_end b (row cs) (col (last mv) + 1) = col cs"
    by (intro word_end_run) auto
  with r assms(3,4) show ?thesis
    by (simp add: ends_before_empty_def Let_def)
qed

lemma run_ok_placed:
  assumes "board_ok b" "type sqr \<noteq> outside" "sqr = sq_at b r c"
  shows "run_ok b (sq_at b (row sqr) (col sqr + 1)) (add_sqr_to_move (row sqr) (col sqr) ch mv)"
proof -
  from board_ok_playable [OF assms(1), of r c] assms(2,3)
  have p: "1 \<le> r \<and> r \<le> 15 \<and> 1 \<le> c \<and> c \<le> 15" by simp
  with board_ok_cells(1,2) [OF assms(1), of r c] assms(3)
  have s: "row sqr = r" "col sqr = c" by auto
  from p board_ok_cells(1,2) [OF assms(1), of r "c + 1"]
  have "row (sq_at b r (c + 1)) = r" "col (sq_at b r (c + 1)) = c + 1" by auto
  with s show ?thesis
    by (auto simp: run_ok_def add_sqr_to_move_def)
qed

lemma run_ok_skip:
  assumes "board_ok b" "run_ok b cs mv"
    and "type (sq_at b (row cs) (col cs)) \<noteq> outside" "letter (sq_at b (row cs) (col cs)) \<noteq> CHR ''.''"
  shows "run_ok b (sq_at b (row cs) (col cs + 1)) mv"
proof -
  from board_ok_playable [OF assms(1,3)]
  have p: "1 \<le> row cs \<and> row cs \<le> 15 \<and> 1 \<le> col cs \<and> col cs \<le> 15" .
  with board_ok_cells(1,2) [OF assms(1), of "row cs" "col cs + 1"]
  have n: "row (sq_at b (row cs) (col cs + 1)) = row cs"
    "col (sq_at b (row cs) (col cs + 1)) = col cs + 1" by auto
  have o: "occupied b (row cs) (col cs)"
    using assms(3,4) by (simp add: occupied_def)
  show ?thesis
  proof (cases "mv = []")
    case True
    then show ?thesis by (simp add: run_ok_def)
  next
    case False
    with assms(2) have "row (last mv) = row cs" "col (last mv) < col cs"
      "\<forall>c. col (last mv) < c \<and> c < col cs \<longrightarrow> occupied b (row cs) c"
      by (auto simp: run_ok_def)
    then have l: "row (last mv) = row cs" "col (last mv) < col cs"
      and run: "\<And>c. col (last mv) < c \<Longrightarrow> c < col cs \<Longrightarrow> occupied b (row cs) c"
      by auto
    have "occupied b (row cs) c" if "col (last mv) < c" "c < col cs + 1" for c
      using that o run [of c] by (cases "c = col cs") auto
    with n l show ?thesis
      by (simp add: run_ok_def)
  qed
qed

lemma extend_children_calls_run_ok:
  assumes "\<And>child rack cs mv call. child \<in> set nodes \<Longrightarrow> run_ok b cs mv \<Longrightarrow>
             call \<in> set (extend_right_calls b rack child cs mv) \<Longrightarrow>
             run_ok b (fst (snd (snd call))) (snd (snd (snd call)))"
    and "board_ok b" "type sqr \<noteq> outside" "sqr = sq_at b r c"
    and "call \<in> set (fst (extend_children_calls b nodes sqr (rack, cs, mv)))"
  shows "run_ok b (fst (snd (snd call))) (snd (snd (snd call)))"
  using assms
proof (induction nodes arbitrary: cs)
  case Nil
  then show ?case by simp
next
  case (Cons child rest)
  have rest: "run_ok b (fst (snd (snd call))) (snd (snd (snd call)))"
    if "call \<in> set (fst (extend_children_calls b rest sqr (rack, cs', mv)))" for cs'
  proof (rule Cons.IH [of cs'])
    show "run_ok b (fst (snd (snd call'))) (snd (snd (snd call')))"
      if "child' \<in> set rest" "run_ok b cs'' mv'"
        "call' \<in> set (extend_right_calls b rack' child' cs'' mv')"
      for child' rack' cs'' mv' call'
      using Cons.prems(1) [of child' cs'' mv' call' rack'] that by simp
  qed (use that Cons.prems in simp_all)
  have child: "run_ok b (fst (snd (snd call))) (snd (snd (snd call)))"
    if "call \<in> set (extend_right_calls b rack'
          child (sq_at b (row sqr) (col sqr + 1)) (add_sqr_to_move (row sqr) (col sqr) ch mv))"
    for rack' ch
    using Cons.prems(1) [of child "sq_at b (row sqr) (col sqr + 1)"
        "add_sqr_to_move (row sqr) (col sqr) ch mv" call rack'] that
      run_ok_placed [OF Cons.prems(2,3,4), of ch mv] by simp
  show ?case
    using Cons.prems(5) by (auto simp: Let_def split: if_splits intro: rest child)
qed

lemma extend_right_calls_run_ok:
  "board_ok b \<Longrightarrow> run_ok b cs mv \<Longrightarrow> call \<in> set (extend_right_calls b rack node cs mv) \<Longrightarrow>
   run_ok b (fst (snd (snd call))) (snd (snd (snd call)))"
proof (induction node arbitrary: rack cs mv call)
  case (TrieNode l t nodes li)
  have loop: "run_ok b (fst (snd (snd call))) (snd (snd (snd call)))"
    if "type (sq_at b (row cs) (col cs)) \<noteq> outside"
      "call \<in> set (fst (extend_children_calls b nodes (sq_at b (row cs) (col cs)) (rack, cs, mv)))"
    using extend_children_calls_run_ok [where nodes = nodes and b = b and call = call
        and sqr = "sq_at b (row cs) (col cs)" and r = "row cs" and c = "col cs"
        and rack = rack and cs = cs and mv = mv] TrieNode.IH TrieNode.prems(1) that by blast
  have nth: "run_ok b (fst (snd (snd call))) (snd (snd (snd call)))"
    if "i < length nodes" "type (sq_at b (row cs) (col cs)) \<noteq> outside"
      "letter (sq_at b (row cs) (col cs)) \<noteq> CHR ''.''"
      "call \<in> set (extend_right_calls b rack (nodes ! i) (sq_at b (row cs) (col cs + 1)) mv)" for i
    using TrieNode.IH [of "nodes ! i" "sq_at b (row cs) (col cs + 1)" mv call rack]
      TrieNode.prems(1) that run_ok_skip [OF TrieNode.prems(1,2)] by simp
  from TrieNode.prems(3) show ?case
    by (subst (asm) extend_right_calls.simps)
       (auto simp: Let_def TrieNode.prems(2) split: if_splits intro: loop nth)
qed

lemma complete_moves_end:
  assumes "board_ok b" "mv \<in> set (complete_moves b rack node cs m [])"
  shows "mv = [] \<or> ends_before_empty b mv"
proof -
  from assms(2) obtain call where c: "call \<in> set (extend_right_calls b rack node cs [])"
    "complete_call b m call" "mv = snd (snd (snd call))"
    by (auto simp: complete_moves_def completed_def)
  have "run_ok b cs []" by (simp add: run_ok_def)
  from extend_right_calls_run_ok [OF assms(1) this c(1)] c(2,3)
  show ?thesis
    using run_ok_complete [of b "fst (snd (snd call))" mv]
    by (auto simp: complete_call_def Let_def split: prod.splits)
qed

lemma fold_keep_better_cases:
  "fst (fold (keep_better t b) ms best) = fst best \<or> fst (fold (keep_better t b) ms best) \<in> set ms"
proof (induction ms arbitrary: best)
  case Nil
  show ?case by simp
next
  case (Cons m ms)
  show ?case
    using Cons [of "keep_better t b m best"]
    by (auto simp: keep_better_def Let_def split: if_splits)
qed

lemma extend_right_outside:
  "type (sq_at b (row cs) (col cs)) = outside \<Longrightarrow> extend_right t b rack node cs m mv best = best"
  by (subst extend_right.simps) simp

text \<open>
  C10. A call of \<open>extend_right\<close> on a square of type \<open>outside\<close> returns without testing for a
  complete move; the test is made on empty playable squares only. So every move that the
  search completes, and with it the best across move if there is one, ends before an empty
  playable square: the first square without a tile after its last new tile (past the tiles
  that were already there) is playable and empty, and it is in column 15 at most. A move
  whose word ends in column 15 is never recorded.
\<close>

theorem recorded_move_ends_before_empty_square:
  assumes "board_ok board"
  shows "(type (sq_at board (row curr_square) (col curr_square)) = outside \<longrightarrow>
          extend_right global_tiles board rack node curr_square min_word_length curr_move best =
            best) \<and>
         (\<forall>move \<in> set (across_candidates global_trie_root board rack).
            move = [] \<or> ends_before_empty board move) \<and>
         (find_best_across_move global_tiles global_trie_root board rack = [] \<or>
          ends_before_empty board (find_best_across_move global_tiles global_trie_root board rack) \<and>
          word_end board
            (row (last (find_best_across_move global_tiles global_trie_root board rack)))
            (col (last (find_best_across_move global_tiles global_trie_root board rack)) + 1)
            \<le> NUM_BOARD_COLS)"
proof -
  let ?mv = "find_best_across_move global_tiles global_trie_root board rack"
  have c: "mv = [] \<or> ends_before_empty board mv"
    if "mv \<in> set (across_candidates global_trie_root board rack)" for mv
  proof -
    from that obtain r c where "mv \<in> set (cell_candidates global_trie_root board rack r c)"
      by (auto simp: across_candidates_def row_candidates_def)
    then have "mv \<in> set (complete_moves board rack global_trie_root (sq_at board r c)
                          (min_across_word_length (sq_at board r c)) [])"
      by (simp add: cell_candidates_def Let_def split: if_splits)
    then show ?thesis by (rule complete_moves_end [OF assms])
  qed
  have "?mv = [] \<or> ?mv \<in> set (across_candidates global_trie_root board rack)"
    using fold_keep_better_cases [of global_tiles board _ "([], 0)"]
    by (simp add: find_best_across_move_best)
  then have e: "?mv = [] \<or> ends_before_empty board ?mv"
    using c by blast
  have "word_end board (row (last ?mv)) (col (last ?mv) + 1) \<le> NUM_BOARD_COLS"
    if "ends_before_empty board ?mv"
    using that board_ok_playable [OF assms, of "row (last ?mv)"
        "word_end board (row (last ?mv)) (col (last ?mv) + 1)"]
    by (simp add: ends_before_empty_def Let_def NUM_BOARD_COLS_def)
  with e c show ?thesis
    by (auto simp: extend_right_outside)
qed

section \<open>Reading the fields of a square after each update\<close>

subsection \<open>Fields after \<open>update_min_across_word_length\<close>\<close>

lemma update_min_fields [simp]:
  "letter (sq_at (update_min_across_word_length b) r c) = letter (sq_at b r c)"
  "type (sq_at (update_min_across_word_length b) r c) = type (sq_at b r c)"
  "row (sq_at (update_min_across_word_length b) r c) = row (sq_at b r c)"
  "col (sq_at (update_min_across_word_length b) r c) = col (sq_at b r c)"
  "down_cross_check (sq_at (update_min_across_word_length b) r c) = down_cross_check (sq_at b r c)"
  by (simp_all add: sq_at_update_min)

lemma min_update_min:
  "min_across_word_length (sq_at (update_min_across_word_length b) r c) =
     (if 1 \<le> r \<and> r \<le> NUM_BOARD_ROWS \<and> in_grid b r c
      then row_min_at b r (rev [1..NUM_BOARD_COLS]) (- 1) c (min_across_word_length (sq_at b r c))
      else min_across_word_length (sq_at b r c))"
  by (simp add: sq_at_update_min)

subsection \<open>Fields after \<open>update_down_cross_checks\<close>\<close>

lemma update_down_cross_checks_fields [simp]:
  "row (sq_at (update_down_cross_checks w b) r c) = row (sq_at b r c)"
  "col (sq_at (update_down_cross_checks w b) r c) = col (sq_at b r c)"
  "min_across_word_length (sq_at (update_down_cross_checks w b) r c) =
     min_across_word_length (sq_at b r c)"
  by (simp_all add: sq_at_update_down_cross_checks cross_checked_def)

lemma cross_check_update_down_cross_checks:
  "down_cross_check (sq_at (update_down_cross_checks w b) r c) =
     (if 1 \<le> r \<and> r \<le> NUM_BOARD_ROWS \<and> 1 \<le> c \<and> c \<le> NUM_BOARD_COLS \<and> in_grid b r c \<and>
         letter (sq_at b r c) = CHR ''.'' \<and>
         \<not> (above_fragment b (r - 1) c [] = [] \<and> below_fragment b (r + 1) c [] = [])
      then new_cross_check w (above_fragment b (r - 1) c []) (below_fragment b (r + 1) c [])
             (down_cross_check (sq_at b r c))
      else down_cross_check (sq_at b r c))"
  by (auto simp: sq_at_update_down_cross_checks cross_checked_def)

lemma fold_list_update_other:
  "i \<notin> f ` set ts \<Longrightarrow> fold (\<lambda>t d. d[f t := g t]) ts d ! i = d ! i"
  by (induction ts arbitrary: d) simp_all

lemma fold_list_update_hit:
  "distinct (map f ts) \<Longrightarrow> t \<in> set ts \<Longrightarrow> f t < length d \<Longrightarrow>
   fold (\<lambda>t d. d[f t := g t]) ts d ! f t = g t"
proof (induction ts arbitrary: d)
  case Nil
  then show ?case by simp
next
  case (Cons x xs)
  show ?case
  proof (cases "t = x")
    case True
    with Cons.prems show ?thesis
      by (simp add: fold_list_update_other)
  next
    case False
    with Cons.prems show ?thesis
      by (simp add: Cons.IH)
  qed
qed

lemma length_fold_list_update [simp]: "length (fold (\<lambda>t d. d[f t := g t]) ts d) = length d"
  by (induction ts arbitrary: d) simp_all

lemma length_new_cross_check [simp]: "length (new_cross_check w a bl d) = length d"
  by (simp add: new_cross_check_def del: upto_rec_numeral)

lemma new_cross_check_nth:
  assumes "i < 26" "i < length d"
  shows "new_cross_check w a bl d ! i = (a @ [char_of (65 + i)] @ bl \<in> set w)"
proof -
  have t: "65 + int i \<in> set [65..90]" using assms(1) by (simp del: upto_rec_numeral)
  have dist: "distinct (map (\<lambda>t. nat (t - 65)) [65..90])"
    by (auto simp: distinct_map inj_on_def simp del: upto_rec_numeral)
  have "fold (\<lambda>t d. d[nat (t - 65) := (a @ [char_of (nat t)] @ bl \<in> set w)]) [65..90] d !
          nat (65 + int i - 65) = (a @ [char_of (nat (65 + int i))] @ bl \<in> set w)"
    using assms(2) by (intro fold_list_update_hit [OF dist t]) simp
  then show ?thesis
    by (simp add: new_cross_check_def nat_add_distrib del: upto_rec_numeral)
qed

subsection \<open>Fields after \<open>transpose_squares\<close>\<close>

lemma in_grid_invert_cell [simp]: "in_grid (invert_cell b r c ib) r' c' = in_grid ib r' c'"
  by (simp add: invert_cell_def)

lemma in_grid_fold_invert_cell [simp]:
  "in_grid (fold (invert_cell b r) cs ib) r' c' = in_grid ib r' c'"
  by (induction cs arbitrary: ib) simp_all

lemma sq_at_fold_invert_cell:
  "sq_at (fold (invert_cell b r) cs ib) r' c' =
     (if r' = r \<and> c' \<in> set cs \<and> in_grid ib r c' then (sq_at b c' r)\<lparr>row := r, col := c'\<rparr>
      else sq_at ib r' c')"
  by (induction cs arbitrary: ib) (auto simp: invert_cell_def sq_at_sq_put)

lemma in_grid_fold_invert_rows [simp]:
  "in_grid (fold (\<lambda>r. fold (invert_cell b r) cs) rs ib) r' c' = in_grid ib r' c'"
  by (induction rs arbitrary: ib) simp_all

lemma sq_at_fold_invert_rows:
  "sq_at (fold (\<lambda>r. fold (invert_cell b r) cs) rs ib) r' c' =
     (if r' \<in> set rs \<and> c' \<in> set cs \<and> in_grid ib r' c' then (sq_at b c' r')\<lparr>row := r', col := c'\<rparr>
      else sq_at ib r' c')"
  by (induction rs arbitrary: ib) (auto simp: sq_at_fold_invert_cell)

lemma in_grid_transpose_squares [simp]: "in_grid (transpose_squares b) r c = in_grid b r c"
  by (simp add: transpose_squares_def)

lemma sq_at_transpose_squares:
  "sq_at (transpose_squares b) r c =
     (if 1 \<le> r \<and> r \<le> NUM_BOARD_ROWS \<and> 1 \<le> c \<and> c \<le> NUM_BOARD_COLS \<and> in_grid b r c
      then (sq_at b c r)\<lparr>row := r, col := c\<rparr> else sq_at b r c)"
  by (simp add: transpose_squares_def sq_at_fold_invert_rows)

lemma in_grid_invert_board [simp]: "in_grid (invert_board w b) r c = in_grid b r c"
  by (simp add: invert_board_def)

section \<open>A board with one tile: cross-checks and quiet rows\<close>

lemma transpose_squares_fields:
  "letter (sq_at (transpose_squares b) r c) =
     (if 1 \<le> r \<and> r \<le> NUM_BOARD_ROWS \<and> 1 \<le> c \<and> c \<le> NUM_BOARD_COLS \<and> in_grid b r c
      then letter (sq_at b c r) else letter (sq_at b r c))"
  "type (sq_at (transpose_squares b) r c) =
     (if 1 \<le> r \<and> r \<le> NUM_BOARD_ROWS \<and> 1 \<le> c \<and> c \<le> NUM_BOARD_COLS \<and> in_grid b r c
      then type (sq_at b c r) else type (sq_at b r c))"
  "down_cross_check (sq_at (transpose_squares b) r c) =
     (if 1 \<le> r \<and> r \<le> NUM_BOARD_ROWS \<and> 1 \<le> c \<and> c \<le> NUM_BOARD_COLS \<and> in_grid b r c
      then down_cross_check (sq_at b c r) else down_cross_check (sq_at b r c))"
  "min_across_word_length (sq_at (transpose_squares b) r c) =
     (if 1 \<le> r \<and> r \<le> NUM_BOARD_ROWS \<and> 1 \<le> c \<and> c \<le> NUM_BOARD_COLS \<and> in_grid b r c
      then min_across_word_length (sq_at b c r) else min_across_word_length (sq_at b r c))"
  "row (sq_at (transpose_squares b) r c) =
     (if 1 \<le> r \<and> r \<le> NUM_BOARD_ROWS \<and> 1 \<le> c \<and> c \<le> NUM_BOARD_COLS \<and> in_grid b r c
      then r else row (sq_at b r c))"
  "col (sq_at (transpose_squares b) r c) =
     (if 1 \<le> r \<and> r \<le> NUM_BOARD_ROWS \<and> 1 \<le> c \<and> c \<le> NUM_BOARD_COLS \<and> in_grid b r c
      then c else col (sq_at b r c))"
  by (simp_all add: sq_at_transpose_squares)

lemma set_letter_fields [simp]:
  "row (sq_at (set_letter b r c ch) r' c') = row (sq_at b r' c')"
  "col (sq_at (set_letter b r c ch) r' c') = col (sq_at b r' c')"
  "down_cross_check (sq_at (set_letter b r c ch) r' c') = down_cross_check (sq_at b r' c')"
  "min_across_word_length (sq_at (set_letter b r c ch) r' c') =
     min_across_word_length (sq_at b r' c')"
  by (simp_all add: sq_at_set_letter)

lemma start_board_fields:
  "row (sq_at start_board r c) = (if 0 \<le> r \<and> r < 17 \<and> 0 \<le> c \<and> c < 17 then r else 0)"
  "col (sq_at start_board r c) = (if 0 \<le> r \<and> r < 17 \<and> 0 \<le> c \<and> c < 17 then c else 0)"
  "down_cross_check (sq_at start_board r c) =
     (if 0 \<le> r \<and> r < 17 \<and> 0 \<le> c \<and> c < 17
      then (if scrabble_layout ! nat r ! nat c = CHR ''x'' then replicate 26 False
            else replicate 26 True)
      else [])"
  by (simp_all add: sq_at_start_board square_of_char_def off_board_def)

lemma toupper_A: "toupper (CHR ''A'') = CHR ''A''"
  by code_simp

lemma upto_1_15: "[1..15::int] = [1, 2, 3, 4, 5, 6, 7, 8, 9, 10, 11, 12, 13, 14, 15]"
  by code_simp

lemma alphabet: "map (\<lambda>i. char_of (65 + i)) [0..<26] = ''ABCDEFGHIJKLMNOPQRSTUVWXYZ''"
  by code_simp

lemma char_of_letter: "i < 26 \<Longrightarrow> char_of (65 + i) = ''ABCDEFGHIJKLMNOPQRSTUVWXYZ'' ! i"
  using arg_cong [OF alphabet, of "\<lambda>xs. xs ! i"] by (simp del: upt_Suc)

lemmas board_dims = NUM_BOARD_ROWS_def NUM_BOARD_COLS_def

text \<open>A board with the single tile \<open>A\<close> in the middle.\<close>

lemma lone_tile_above:
  assumes "\<And>r c. letter (sq_at b r c) = (if r = 8 \<and> c = 8 then CHR ''A'' else CHR ''.'')"
    and "type (sq_at b 8 8) \<noteq> outside"
  shows "above_fragment b r c acc = (if r = 8 \<and> c = 8 then CHR ''A'' # acc else acc)"
  by (subst above_fragment.simps, subst above_fragment.simps) (simp add: assms toupper_A)

lemma lone_tile_below:
  assumes "\<And>r c. letter (sq_at b r c) = (if r = 8 \<and> c = 8 then CHR ''A'' else CHR ''.'')"
    and "type (sq_at b 8 8) \<noteq> outside"
  shows "below_fragment b r c acc = (if r = 8 \<and> c = 8 then acc @ [CHR ''A''] else acc)"
  by (subst below_fragment.simps, subst below_fragment.simps) (simp add: assms toupper_A)

lemma lone_tile_cross_check:
  assumes "\<And>r c. letter (sq_at b r c) = (if r = 8 \<and> c = 8 then CHR ''A'' else CHR ''.'')"
    and "type (sq_at b 8 8) \<noteq> outside"
    and "\<And>r c. in_grid b r c \<longleftrightarrow> 0 \<le> r \<and> r < 17 \<and> 0 \<le> c \<and> c < 17"
  shows "down_cross_check (sq_at (update_down_cross_checks w b) r c) =
           (if r = 7 \<and> c = 8 then new_cross_check w [] ''A'' (down_cross_check (sq_at b r c))
            else if r = 9 \<and> c = 8 then new_cross_check w ''A'' [] (down_cross_check (sq_at b r c))
            else down_cross_check (sq_at b r c))"
  by (simp add: cross_check_update_down_cross_checks board_dims assms(3)
        lone_tile_above [of b, OF assms(1,2)] lone_tile_below [of b, OF assms(1,2)] assms(1))

lemma quiet_row_min:
  assumes "\<And>c. letter (sq_at b (r - 1) c) = CHR ''.'' \<and> letter (sq_at b r c) = CHR ''.'' \<and>
                letter (sq_at b (r + 1) c) = CHR ''.''"
  shows "row_min_at b r cs (- 1) c d = (if c \<in> set cs then - 1 else d)"
proof -
  have "mwl_next b r x (- 1) = - 1" "cell_min b r x (- 1) = - 1" for x
    using assms [of x] assms [of "x - 1"] assms [of "x + 1"]
    by (simp_all add: mwl_next_def cell_min_def)
  then show ?thesis
    by (induction cs arbitrary: d) simp_all
qed

lemma lone_tile_quiet_row:
  assumes "\<And>r c. letter (sq_at b r c) = (if r = 8 \<and> c = 8 then CHR ''A'' else CHR ''.'')"
    and "r < 7 \<or> 9 < r" "1 \<le> r" "r \<le> 15" "1 \<le> c" "c \<le> 15" "in_grid b r c"
  shows "cell_candidates root (update_min_across_word_length b) rack r c = []"
proof -
  have "row_min_at b r cs (- 1) c d = (if c \<in> set cs then - 1 else d)" for cs d
    using assms(2) by (intro quiet_row_min) (auto simp: assms(1))
  then have "row_min_at b r (rev [1..NUM_BOARD_COLS]) (- 1) c d = - 1" for d
    using assms(5,6) by (simp add: NUM_BOARD_COLS_def)
  with assms(3,4,7) have "min_across_word_length (sq_at (update_min_across_word_length b) r c) = - 1"
    by (simp add: min_update_min NUM_BOARD_ROWS_def)
  then show ?thesis
    by (simp add: cell_candidates_def Let_def)
qed

section \<open>A tie between the best across move and the best down move\<close>

lemma ate_trie_eq:
  "ate_trie =
     TrieNode (CHR ''*'') False
       [TrieNode (CHR ''A'') False
          [TrieNode (CHR ''T'') False
             [TrieNode (CHR ''E'') True [] (replicate 26 (- 1))]
             ((replicate 26 (- 1))[4 := 0])]
          ((replicate 26 (- 1))[19 := 0])]
       ((replicate 26 (- 1))[0 := 0])"
  unfolding ate_trie_def ate_words_def by code_simp

lemma te_rack_eq: "te_rack = (replicate 27 0)[4 := 1, 19 := 1]"
  unfolding te_rack_def by code_simp

lemma in_grid_center_a_board [simp]:
  "in_grid center_a_board r c \<longleftrightarrow> 0 \<le> r \<and> r < 17 \<and> 0 \<le> c \<and> c < 17"
  by (simp add: center_a_board_def)

lemma letter_lone_a:
  "letter (sq_at (set_letter start_board 8 8 (CHR ''A'')) r c) =
     (if r = 8 \<and> c = 8 then CHR ''A'' else CHR ''.'')"
  by (simp add: letter_set_letter)

lemma type_lone_a: "type (sq_at (set_letter start_board 8 8 (CHR ''A'')) 8 8) \<noteq> outside"
  by (simp add: type_start_board scrabble_layout_def)

lemma center_a_board_fields:
  "letter (sq_at center_a_board r c) = (if r = 8 \<and> c = 8 then CHR ''A'' else CHR ''.'')"
  "type (sq_at center_a_board r c) = type (sq_at start_board r c)"
  "row (sq_at center_a_board r c) = (if 0 \<le> r \<and> r < 17 \<and> 0 \<le> c \<and> c < 17 then r else 0)"
  "col (sq_at center_a_board r c) = (if 0 \<le> r \<and> r < 17 \<and> 0 \<le> c \<and> c < 17 then c else 0)"
  "down_cross_check (sq_at center_a_board r c) =
     (if r = 7 \<and> c = 8 then new_cross_check ate_words [] ''A'' (replicate 26 True)
      else if r = 9 \<and> c = 8 then new_cross_check ate_words ''A'' [] (replicate 26 True)
      else down_cross_check (sq_at start_board r c))"
  by (simp_all add: center_a_board_def letter_set_letter start_board_fields
        lone_tile_cross_check [OF letter_lone_a type_lone_a] scrabble_layout_def)

lemma min_center_a_board:
  "1 \<le> r \<Longrightarrow> r \<le> 15 \<Longrightarrow> 1 \<le> c \<Longrightarrow> c \<le> 15 \<Longrightarrow>
   min_across_word_length (sq_at center_a_board r c) =
     row_min_at (update_down_cross_checks ate_words (set_letter start_board 8 8 (CHR ''A''))) r
       [15, 14, 13, 12, 11, 10, 9, 8, 7, 6, 5, 4, 3, 2, 1] (- 1) c
       (min_across_word_length (sq_at start_board r c))"
  by (simp add: center_a_board_def min_update_min board_dims upto_1_15)

lemma lone_tile_steps:
  assumes "\<And>r c. letter (sq_at b r c) = (if r = 8 \<and> c = 8 then CHR ''A'' else CHR ''.'')"
  shows "mwl_next b r c m =
     (if r = 8 \<and> c = 9 then m
      else if (r = 7 \<or> r = 9) \<and> c = 8 \<or> r = 8 \<and> (c = 7 \<or> c = 8) then 1
      else if m = - 1 then m else m + 1)"
  "cell_min b r c m =
     (if r = 8 \<and> c = 9 then - 1
      else if (r = 7 \<or> r = 9) \<and> c = 8 \<or> r = 8 \<and> (c = 7 \<or> c = 8) then 1
      else if m = - 1 then - 1 else m + 1)"
  by (auto simp: mwl_next_def cell_min_def assms)

lemmas lone_a_steps =
  lone_tile_steps [of "update_down_cross_checks w (set_letter start_board 8 8 (CHR ''A''))" for w,
    simplified letter_update_down_cross_checks, OF letter_lone_a]

lemma new_cross_check_letter:
  "i < 26 \<Longrightarrow> i < length d \<Longrightarrow>
   new_cross_check w a bl d ! i = (a @ [''ABCDEFGHIJKLMNOPQRSTUVWXYZ'' ! i] @ bl \<in> set w)"
  by (simp add: new_cross_check_nth char_of_letter)

lemmas center_a_search =
  cell_candidates_def complete_moves_def complete_call_def Let_def NUM_RACK_TILES_def
  extend_right_calls.simps center_a_board_fields min_center_a_board lone_a_steps
  ate_trie_eq te_rack_eq type_start_board scrabble_layout_def start_board_fields
  letter_index_def to_unsigned_def add_sqr_to_move_def new_cross_check_letter
  ate_words_def toupper_A

lemma center_a_quiet_row:
  assumes "r < 7 \<or> 9 < r" "1 \<le> r" "r \<le> 15"
  shows "row_candidates root center_a_board rack r = []"
proof -
  have "cell_candidates root center_a_board rack r c = []" if "1 \<le> c" "c \<le> 15" for c
    unfolding center_a_board_def
    using assms that by (intro lone_tile_quiet_row) (simp_all add: letter_lone_a)
  then show ?thesis
    by (simp add: row_candidates_def NUM_BOARD_COLS_def)
qed

lemma center_a_rows:
  "row_candidates ate_trie center_a_board te_rack 7 = []"
  "row_candidates ate_trie center_a_board te_rack 8 = [te_across_move]"
  "row_candidates ate_trie center_a_board te_rack 9 = []"
  by (simp_all add: row_candidates_def NUM_BOARD_COLS_def upto_1_15 center_a_search
        te_across_move_def)

lemma center_a_across_candidates:
  "across_candidates ate_trie center_a_board te_rack = [te_across_move]"
  by (simp add: across_candidates_def NUM_BOARD_ROWS_def upto_1_15 center_a_quiet_row
        center_a_rows)

text \<open>The transposed board has the same single tile.\<close>

lemma letter_transposed_a:
  "letter (sq_at (transpose_squares center_a_board) r c) =
     (if r = 8 \<and> c = 8 then CHR ''A'' else CHR ''.'')"
  by (auto simp: transpose_squares_fields center_a_board_fields)

lemma type_transposed_a: "type (sq_at (transpose_squares center_a_board) 8 8) \<noteq> outside"
  by (simp add: transpose_squares_fields center_a_board_fields type_start_board
        scrabble_layout_def board_dims)

lemma in_grid_inverted_a [simp]:
  "in_grid (invert_board w center_a_board) r c \<longleftrightarrow> 0 \<le> r \<and> r < 17 \<and> 0 \<le> c \<and> c < 17"
  by simp

lemma inverted_a_fields:
  "letter (sq_at (invert_board w center_a_board) r c) =
     (if r = 8 \<and> c = 8 then CHR ''A'' else CHR ''.'')"
  "type (sq_at (invert_board w center_a_board) r c) =
     (if 1 \<le> r \<and> r \<le> 15 \<and> 1 \<le> c \<and> c \<le> 15
      then type (sq_at start_board c r) else type (sq_at start_board r c))"
  "row (sq_at (invert_board w center_a_board) r c) =
     (if 0 \<le> r \<and> r < 17 \<and> 0 \<le> c \<and> c < 17 then r else 0)"
  "col (sq_at (invert_board w center_a_board) r c) =
     (if 0 \<le> r \<and> r < 17 \<and> 0 \<le> c \<and> c < 17 then c else 0)"
  by (auto simp: invert_board_def letter_transposed_a transpose_squares_fields
        center_a_board_fields board_dims)

lemma cross_check_inverted_a:
  "down_cross_check (sq_at (invert_board w center_a_board) r c) =
     (if r = 7 \<and> c = 8
      then new_cross_check w [] ''A'' (down_cross_check (sq_at center_a_board c r))
      else if r = 9 \<and> c = 8
      then new_cross_check w ''A'' [] (down_cross_check (sq_at center_a_board c r))
      else if 1 \<le> r \<and> r \<le> 15 \<and> 1 \<le> c \<and> c \<le> 15
      then down_cross_check (sq_at center_a_board c r)
      else down_cross_check (sq_at center_a_board r c))"
  by (simp add: invert_board_def transpose_squares_fields board_dims
        lone_tile_cross_check [OF letter_transposed_a type_transposed_a])

lemma min_inverted_a:
  "1 \<le> r \<Longrightarrow> r \<le> 15 \<Longrightarrow> 1 \<le> c \<Longrightarrow> c \<le> 15 \<Longrightarrow>
   min_across_word_length (sq_at (invert_board w center_a_board) r c) =
     row_min_at (update_down_cross_checks w (transpose_squares center_a_board)) r
       [15, 14, 13, 12, 11, 10, 9, 8, 7, 6, 5, 4, 3, 2, 1] (- 1) c
       (min_across_word_length (sq_at center_a_board c r))"
  by (simp add: invert_board_def min_update_min board_dims upto_1_15 transpose_squares_fields)

lemmas transposed_a_steps =
  lone_tile_steps [of "update_down_cross_checks w (transpose_squares center_a_board)" for w,
    simplified letter_update_down_cross_checks, OF letter_transposed_a]

lemma inverted_a_quiet_row:
  assumes "r < 7 \<or> 9 < r" "1 \<le> r" "r \<le> 15"
  shows "row_candidates root (invert_board w center_a_board) rack r = []"
proof -
  have "cell_candidates root (invert_board w center_a_board) rack r c = []"
    if "1 \<le> c" "c \<le> 15" for c
    unfolding invert_board_def
    using assms that by (intro lone_tile_quiet_row) (simp_all add: letter_transposed_a)
  then show ?thesis
    by (simp add: row_candidates_def NUM_BOARD_COLS_def)
qed

lemmas inverted_a_search =
  cell_candidates_def complete_moves_def complete_call_def Let_def NUM_RACK_TILES_def
  extend_right_calls.simps inverted_a_fields cross_check_inverted_a min_inverted_a
  transposed_a_steps center_a_board_fields
  ate_trie_eq te_rack_eq type_start_board scrabble_layout_def start_board_fields
  letter_index_def to_unsigned_def add_sqr_to_move_def new_cross_check_letter
  ate_words_def toupper_A

lemma inverted_a_rows:
  "row_candidates ate_trie (invert_board ate_words center_a_board) te_rack 7 = []"
  "row_candidates ate_trie (invert_board ate_words center_a_board) te_rack 8 = [te_across_move]"
  "row_candidates ate_trie (invert_board ate_words center_a_board) te_rack 9 = []"
  by (simp_all add: row_candidates_def NUM_BOARD_COLS_def upto_1_15 inverted_a_search
        te_across_move_def)

lemma inverted_a_across_candidates:
  "across_candidates ate_trie (invert_board ate_words center_a_board) te_rack = [te_across_move]"
  by (simp add: across_candidates_def NUM_BOARD_ROWS_def upto_1_15 inverted_a_quiet_row
        inverted_a_rows)

lemmas score_eval =
  calc_across_pts_def row_pts_before_bonus_def placed_letter_pts_def upper_points_def
  tile_points_def letter_index_def isupper_def scrabble_tiles_def word_bonus_loop_power
  add_upper_points_def int32_def
  row_pts_left.simps row_pts_between.simps row_pts_right.simps add_sqr_to_move_def Let_def
  type_start_board scrabble_layout_def

lemma te_across_pts:
  "calc_across_pts scrabble_tiles center_a_board te_across_move = 3"
  "calc_across_pts scrabble_tiles (invert_board ate_words center_a_board) te_across_move = 3"
  by (simp_all add: te_across_move_def score_eval center_a_board_fields inverted_a_fields)

lemma te_best_across:
  "find_best_across_move scrabble_tiles ate_trie center_a_board te_rack = te_across_move"
  "find_best_across_move scrabble_tiles ate_trie (invert_board ate_words center_a_board) te_rack =
     te_across_move"
  by (simp_all add: find_best_across_move_best center_a_across_candidates
        inverted_a_across_candidates keep_better_def te_across_pts)

lemma invert_te_move:
  "invert_move (invert_move te_across_move) = te_across_move"
  "invert_move te_across_move \<noteq> te_across_move"
  by (simp_all add: invert_move_def te_across_move_def add_sqr_to_move_def)

lemma has_tile_center_a_board: "has_tile center_a_board"
  by (simp add: has_tile_def board_dims upto_1_15 center_a_board_fields)

text \<open>
  C3 as stated fails on a tie. With the tile \<open>A\<close> in the middle of the board, the words ATE
  and AT and the rack TE, the best across move (T and E right of the A) and the best down
  move (T and E below the A) both score 3, and \<open>find_best_move\<close> returns the down move.
\<close>

theorem find_best_move_tie_counterexample:
  "calc_across_pts scrabble_tiles center_a_board
     (find_best_across_move scrabble_tiles ate_trie center_a_board te_rack) = 3 \<and>
   calc_down_pts ate_words scrabble_tiles center_a_board
     (find_best_down_move ate_words scrabble_tiles ate_trie center_a_board te_rack) = 3 \<and>
   find_best_move ate_words scrabble_tiles ate_trie center_a_board te_rack ([], 0) =
     (find_best_down_move ate_words scrabble_tiles ate_trie center_a_board te_rack, 3) \<and>
   find_best_down_move ate_words scrabble_tiles ate_trie center_a_board te_rack \<noteq>
     find_best_across_move scrabble_tiles ate_trie center_a_board te_rack"
  by (simp add: find_best_move_def has_tile_center_a_board find_best_down_move_def
        calc_down_pts_def te_best_across te_across_pts invert_te_move)

text \<open>The same position shows C3 as amended at work: the board has a tile, the scores tie.\<close>

theorem find_best_move_across_or_down_witness:
  "has_tile center_a_board \<and>
   find_best_move ate_words scrabble_tiles ate_trie center_a_board te_rack ([], 0) =
     (invert_move te_across_move, 3)"
  using find_best_move_across_or_down [OF has_tile_center_a_board,
      of ate_words scrabble_tiles ate_trie te_rack "([], 0)"]
  by (simp add: has_tile_center_a_board find_best_down_move_def
        calc_down_pts_def te_best_across te_across_pts invert_te_move)

section \<open>Well-formed boards\<close>

lemma same_shape_refl [simp]: "same_shape b b"
  by (simp add: same_shape_def)

lemma same_shape_trans: "same_shape a b \<Longrightarrow> same_shape b c \<Longrightarrow> same_shape a c"
  by (simp add: same_shape_def)

lemma same_shape_sq_put [simp]: "same_shape b (sq_put b r c s)"
  by (simp add: same_shape_def)

lemma same_shape_fold:
  assumes "\<And>x b. same_shape b (f x b)"
  shows "same_shape b (fold f xs b)"
proof (induction xs arbitrary: b)
  case Nil
  show ?case by simp
next
  case (Cons x xs)
  show ?case
    using same_shape_trans [OF assms [of b x] Cons [of "f x b"]] by simp
qed

lemma same_shape_set_letter [simp]: "same_shape b (set_letter b r c ch)"
  by (simp add: set_letter_def)

lemma same_shape_update_min [simp]: "same_shape b (update_min_across_word_length b)"
proof -
  have "same_shape b (fst (fold (min_across_cell r) cs (b, m)))" for r cs b m
  proof (induction cs arbitrary: b m)
    case Nil
    show ?case by simp
  next
    case (Cons x xs)
    show ?case
      using same_shape_trans [OF _ Cons [of "set_min b r x (cell_min b r x m)" "mwl_next b r x m"],
          of b]
      by (simp add: min_across_cell_eq set_min_def del: min_across_cell.simps)
  qed
  then have "same_shape b (min_across_row r b)" for r b
    by (simp add: min_across_row_def)
  then show ?thesis
    unfolding update_min_across_word_length_def by (rule same_shape_fold)
qed

lemma same_shape_update_down_cross_checks [simp]:
  "same_shape b (update_down_cross_checks w b)"
proof -
  have "same_shape b (test_letter_step w a bl r c t b)" for a bl r c t b
    by (simp add: test_letter_step_def set_cross_check_def)
  then have "same_shape b (cross_check_cell w r c b)" for r c b
    unfolding cross_check_cell_def Let_def
    by (auto intro: same_shape_fold simp del: upto_rec_numeral)
  then show ?thesis
    unfolding update_down_cross_checks_def
    by (intro same_shape_fold)
qed

lemma board_ok_cong:
  assumes "board_ok b" "same_shape b b'"
    and "\<And>r c. row (sq_at b' r c) = row (sq_at b r c)"
    and "\<And>r c. col (sq_at b' r c) = col (sq_at b r c)"
    and "\<And>r c. type (sq_at b' r c) = type (sq_at b r c)"
    and "\<And>r c. type (sq_at b r c) = outside \<Longrightarrow> letter (sq_at b' r c) = letter (sq_at b r c)"
  shows "board_ok b'"
  using assms(1,2) unfolding board_ok_def same_shape_def list_all_length
  by (auto simp: assms(3-6))

lemma upto_0_16:
  "[0..16::int] = [0, 1, 2, 3, 4, 5, 6, 7, 8, 9, 10, 11, 12, 13, 14, 15, 16]"
  by code_simp

lemma board_ok_start_board: "board_ok start_board"
proof -
  have "length start_board = 17"
    by (simp add: start_board_def)
  moreover have "list_all (\<lambda>r. length r = 17) start_board"
    unfolding list_all_length start_board_def
    by (auto simp: read_board_data_row length_scrabble_layout_row [of "int i" for i, simplified])
  moreover have "list_all (\<lambda>r. list_all (\<lambda>c.
        row (sq_at start_board r c) = r \<and> col (sq_at start_board r c) = c \<and>
        (type (sq_at start_board r c) = outside) = (r = 0 \<or> r = 16 \<or> c = 0 \<or> c = 16) \<and>
        (type (sq_at start_board r c) = outside \<longrightarrow> letter (sq_at start_board r c) = CHR ''.''))
        [0..16]) [0..16]"
    unfolding upto_0_16
    by (simp add: start_board_fields type_start_board scrabble_layout_def)
  ultimately show ?thesis
    by (simp add: board_ok_def)
qed

lemma board_ok_update_min: "board_ok b \<Longrightarrow> board_ok (update_min_across_word_length b)"
  by (erule board_ok_cong) simp_all

lemma board_ok_update_down_cross_checks:
  "board_ok b \<Longrightarrow> board_ok (update_down_cross_checks w b)"
  by (erule board_ok_cong) simp_all

lemma board_ok_set_letter:
  "board_ok b \<Longrightarrow> type (sq_at b r c) \<noteq> outside \<Longrightarrow> board_ok (set_letter b r c ch)"
  by (erule board_ok_cong) (auto simp: letter_set_letter)

lemma board_ok_center_a_board: "board_ok center_a_board"
  unfolding center_a_board_def
  by (intro board_ok_update_min board_ok_update_down_cross_checks board_ok_set_letter
        board_ok_start_board)
     (simp add: type_start_board scrabble_layout_def)

section \<open>The examples at work\<close>


lemma word_end_center_a: "word_end center_a_board 8 11 = 11"
  by (subst word_end.simps) (simp add: occupied_def center_a_board_fields)

text \<open>
  On the board with the tile \<open>A\<close> in the middle, the best across move puts T and E in
  columns 9 and 10 of row 8; the square after them, in column 11, is playable and empty.
\<close>

theorem recorded_move_ends_before_empty_square_witness:
  "board_ok center_a_board \<and>
   find_best_across_move scrabble_tiles ate_trie center_a_board te_rack = te_across_move \<and>
   ends_before_empty center_a_board te_across_move \<and>
   word_end center_a_board (row (last te_across_move)) (col (last te_across_move) + 1) = 11"
  using recorded_move_ends_before_empty_square [OF board_ok_center_a_board,
      of "sq_at center_a_board 8 8" scrabble_tiles te_rack ate_trie 1 "[]" "([], 0)" ate_trie]
  by (simp add: board_ok_center_a_board te_best_across te_across_move_def add_sqr_to_move_def
        word_end_center_a)

lemma rack_ok_te_rack: "rack_ok te_rack"
  unfolding rack_ok_def te_rack_def by code_simp

text \<open>
  The rack TE has no negative count, and neither has any rack in the search from the
  middle square of that board.
\<close>

theorem extend_right_rack_and_move_restored_witness:
  "rack_ok te_rack \<and>
   list_all (\<lambda>call. rack_ok (fst call))
     (extend_right_calls center_a_board te_rack ate_trie (sq_at center_a_board 8 8) []) \<and>
   fst (extend_children scrabble_tiles center_a_board (children ate_trie)
          (sq_at center_a_board 8 7) 1 (te_rack, sq_at center_a_board 8 7, [], ([], 0))) = te_rack"
  using extend_right_rack_and_move_restored [OF rack_ok_te_rack,
      of center_a_board ate_trie "sq_at center_a_board 8 8" "[]" scrabble_tiles
         "children ate_trie" "sq_at center_a_board 8 7" 1 te_rack "sq_at center_a_board 8 7"
         "[]" "([], 0)"]
  by (simp add: rack_ok_te_rack list_all_iff)






section \<open>Where the code departs from its intent\<close>

text \<open>
  C1 fails on the code where a square with nothing above and nothing below comes with a
  cross-check set that is not full: \<open>update_down_cross_checks\<close> skips such a square and leaves
  the set as it is. \<open>invert_board\<close> gives it such boards: the transposed copy of the board
  with the tile \<open>A\<close> in the middle (words ATE and AT) has at row 8, column 9 the cross-check
  set that the original board had below the \<open>A\<close>, where only T is legal. After
  \<open>update_down_cross_checks\<close> on the copy the square is empty, has nothing above or below,
  and the letter A (index 0) is still not legal.
\<close>

theorem stale_cross_check_after_transposition:
  "letter (sq_at (transpose_squares center_a_board) 8 9) = CHR ''.'' \<and>
   above_fragment (transpose_squares center_a_board) (8 - 1) 9 [] = [] \<and>
   below_fragment (transpose_squares center_a_board) (8 + 1) 9 [] = [] \<and>
   \<not> down_cross_check
        (sq_at (update_down_cross_checks ate_words (transpose_squares center_a_board)) 8 9) ! 0"
  by (simp add: letter_transposed_a
        lone_tile_above [OF letter_transposed_a type_transposed_a]
        lone_tile_below [OF letter_transposed_a type_transposed_a]
        lone_tile_cross_check [OF letter_transposed_a type_transposed_a]
        transpose_squares_fields board_dims center_a_board_fields new_cross_check_letter
        ate_words_def)

text \<open>
  C8 fails on the code: \<open>add_move_to_board\<close> assigns the whole \<open>Square\<close> of the move to the
  square of the board. A move square of type regular put on the double-word square in the
  middle leaves it regular, and a square made by \<open>add_sqr_to_move\<close> leaves it with an empty
  cross-check vector.
\<close>

theorem add_move_to_board_overwrites_square:
  "type (sq_at start_board 8 8) = double_word \<and>
   type (sq_at (add_move_to_board ate_words start_board [plain_a_square]) 8 8) = regular \<and>
   down_cross_check (sq_at start_board 8 8) = replicate 26 True \<and>
   down_cross_check
     (sq_at (add_move_to_board ate_words start_board (add_sqr_to_move 8 8 (CHR ''A'') [])) 8 8)
     = []"
  by (simp add: add_move_to_board_def plain_a_square_def add_sqr_to_move_def sq_at_sq_put
        type_start_board start_board_fields scrabble_layout_def
        cross_check_update_down_cross_checks)

section \<open>The order of the search and the first move, on examples\<close>

lemma tar_ear_trie_eq:
  "tar_ear_trie =
     TrieNode (CHR ''*'') False
       [TrieNode (CHR ''T'') False
          [TrieNode (CHR ''A'') False
             [TrieNode (CHR ''R'') True [] (replicate 26 (- 1))]
             ((replicate 26 (- 1))[17 := 0])]
          ((replicate 26 (- 1))[0 := 0]),
        TrieNode (CHR ''E'') False
          [TrieNode (CHR ''A'') False
             [TrieNode (CHR ''R'') True [] (replicate 26 (- 1))]
             ((replicate 26 (- 1))[17 := 0])]
          ((replicate 26 (- 1))[0 := 0])]
       ((replicate 26 (- 1))[19 := 0, 4 := 1])"
  unfolding tar_ear_trie_def by code_simp

lemma aba_trie_eq:
  "aba_trie =
     TrieNode (CHR ''*'') False
       [TrieNode (CHR ''A'') False
          [TrieNode (CHR ''B'') False
             [TrieNode (CHR ''A'') True [] (replicate 26 (- 1))]
             ((replicate 26 (- 1))[0 := 0])]
          ((replicate 26 (- 1))[1 := 0])]
       ((replicate 26 (- 1))[0 := 0])"
  unfolding aba_trie_def by code_simp

lemma et_rack_eq: "et_rack = (replicate 27 0)[4 := 1, 19 := 1]"
  unfolding et_rack_def by code_simp

lemma a_blank_rack_eq: "a_blank_rack = (replicate 27 0)[0 := 1, 26 := 1]"
  unfolding a_blank_rack_def by code_simp

lemma toupper_letters:
  "toupper (CHR ''A'') = CHR ''A''" "toupper (CHR ''B'') = CHR ''B''"
  "toupper (CHR ''R'') = CHR ''R''" "tolower (CHR ''A'') = CHR ''a''"
  by code_simp+

lemmas plain_search =
  complete_moves_def complete_call_def Let_def extend_right_calls.simps
  letter_set_letter type_start_board scrabble_layout_def start_board_fields
  letter_index_def to_unsigned_def add_sqr_to_move_def toupper_letters

lemma tar_ear_moves:
  "complete_moves ar_board et_rack tar_ear_trie (sq_at ar_board 8 7) 1 [] =
     [add_sqr_to_move 8 7 (CHR ''T'') [], add_sqr_to_move 8 7 (CHR ''E'') []]"
  by (simp add: ar_board_def tar_ear_trie_eq et_rack_eq plain_search)

lemma tar_ear_pts:
  "calc_across_pts scrabble_tiles ar_board (add_sqr_to_move 8 7 (CHR ''T'') []) = 3"
  "calc_across_pts scrabble_tiles ar_board (add_sqr_to_move 8 7 (CHR ''E'') []) = 3"
  by (simp_all add: ar_board_def score_eval letter_set_letter)

lemma aba_moves:
  "complete_moves b_board a_blank_rack aba_trie (sq_at b_board 7 1) 1 [] =
     [add_sqr_to_move 7 3 (CHR ''a'') (add_sqr_to_move 7 1 (CHR ''A'') [])]"
  by (simp add: b_board_def aba_trie_eq a_blank_rack_eq plain_search)

lemma aba_pts:
  "calc_across_pts scrabble_tiles b_board
     (add_sqr_to_move 7 3 (CHR ''a'') (add_sqr_to_move 7 1 (CHR ''A'') [])) = 4"
  "calc_across_pts scrabble_tiles b_board
     (add_sqr_to_move 7 3 (CHR ''A'') (add_sqr_to_move 7 1 (CHR ''a'') [])) = 5"
  by (simp_all add: b_board_def score_eval letter_set_letter)

text \<open>
  C4 as stated fails twice. With the words TAR and EAR inserted in this order, the tiles A
  and R on the board and the rack ET, the search from the square left of the A completes
  the move with T before the move with E, and as both score 3 it keeps T: the letters are
  not tried in alphabetical order. With the word ABA, the tile B on the board and the rack
  of an A and a blank, the search completes one move only, the A on the left and the blank
  on the double-letter square on the right, for 4 points; the blank branch for the first A
  is never tried, though the blank on the left and the A on the right score 5.
\<close>

theorem search_order_counterexample:
  "complete_moves ar_board et_rack tar_ear_trie (sq_at ar_board 8 7) 1 [] =
     [add_sqr_to_move 8 7 (CHR ''T'') [], add_sqr_to_move 8 7 (CHR ''E'') []] \<and>
   extend_right scrabble_tiles ar_board et_rack tar_ear_trie (sq_at ar_board 8 7) 1 [] ([], 0) =
     (add_sqr_to_move 8 7 (CHR ''T'') [], 3) \<and>
   calc_across_pts scrabble_tiles ar_board (add_sqr_to_move 8 7 (CHR ''E'') []) = 3 \<and>
   complete_moves b_board a_blank_rack aba_trie (sq_at b_board 7 1) 1 [] =
     [add_sqr_to_move 7 3 (CHR ''a'') (add_sqr_to_move 7 1 (CHR ''A'') [])] \<and>
   extend_right scrabble_tiles b_board a_blank_rack aba_trie (sq_at b_board 7 1) 1 [] ([], 0) =
     (add_sqr_to_move 7 3 (CHR ''a'') (add_sqr_to_move 7 1 (CHR ''A'') []), 4) \<and>
   calc_across_pts scrabble_tiles b_board
     (add_sqr_to_move 7 3 (CHR ''A'') (add_sqr_to_move 7 1 (CHR ''a'') [])) = 5"
  by (simp add: extend_right_best tar_ear_moves aba_moves keep_better_def tar_ear_pts aba_pts)

text \<open>The first of the two positions shows C4 as amended at work.\<close>

theorem extend_right_search_order_witness:
  "type (sq_at ar_board (row (sq_at ar_board 8 7)) (col (sq_at ar_board 8 7))) \<noteq> outside \<and>
   letter (sq_at ar_board (row (sq_at ar_board 8 7)) (col (sq_at ar_board 8 7))) = CHR ''.'' \<and>
   map trie_letter (children tar_ear_trie) = ''TE'' \<and>
   fold (try_child scrabble_tiles ar_board et_rack (sq_at ar_board 8 7) 1 [])
     (children tar_ear_trie) ([], 0) = (add_sqr_to_move 8 7 (CHR ''T'') [], 3)"
proof -
  have s: "row (sq_at ar_board 8 7) = 8" "col (sq_at ar_board 8 7) = 7"
    "type (sq_at ar_board 8 7) \<noteq> outside" "letter (sq_at ar_board 8 7) = CHR ''.''"
    by (simp_all add: ar_board_def start_board_fields letter_set_letter type_start_board
          scrabble_layout_def)
  have t: "\<not> is_terminal_node tar_ear_trie" "map trie_letter (children tar_ear_trie) = ''TE''"
    by (simp_all add: tar_ear_trie_eq)
  from extend_right_search_order [of scrabble_tiles ar_board et_rack tar_ear_trie
      "sq_at ar_board 8 7" 1 "[]" "([], 0)"]
  show ?thesis
    by (simp add: s t extend_right_best tar_ear_moves keep_better_def tar_ear_pts
          del: fold_simps)
qed

text \<open>
  C6 as stated fails: the square of the middle row at column 7 is at distance 1 from the
  middle square, and the loop gives it the minimum length 2.
\<close>

theorem first_move_min_counterexample:
  "mid_col - 7 = 1 \<and>
   min_across_word_length (sq_at (set_first_move_min start_board 7) mid_row 7) = 2"
  by (simp add: mid_col_def mid_row_def board_dims set_first_move_min_def sq_at_set_min)

lemma no_tile_start_board: "\<not> has_tile start_board"
  by (simp add: has_tile_def list_ex_iff)

text \<open>The empty standard board has no tile, and the middle row is on the board.\<close>

theorem find_best_move_first_move_witness:
  "\<not> has_tile start_board \<and> list_all (in_grid start_board mid_row) [1..mid_col] \<and>
   find_best_move ate_words scrabble_tiles ate_trie start_board te_rack ([], 0) =
     snd (fold (first_move_call scrabble_tiles ate_trie te_rack) [1..mid_col]
            (start_board, ([], 0))) \<and>
   min_across_word_length (sq_at (set_first_move_min start_board 7) mid_row 7) = 2 \<and>
   min_across_word_length (sq_at (set_first_move_min start_board 8) mid_row 8) = 2"
proof -
  have g: "\<forall>c \<in> set [1..mid_col]. in_grid start_board mid_row c"
    by (simp add: mid_col_def mid_row_def board_dims)
  from find_best_move_first_move [OF no_tile_start_board g,
      of ate_words scrabble_tiles ate_trie te_rack "([], 0)"] g
  show ?thesis
    by (simp add: no_tile_start_board mid_col_def mid_row_def board_dims list_all_iff)
qed

end
